theory Spec2Isabelle
  imports Complex_Main "HOL-Library.Word"
begin

unbundle bit_operations_syntax

section \<open>Values, errors, loops\<close>

text \<open>
  The quantizers of \<^verbatim>\<open>pkg/vectorspace\<close> (\<^verbatim>\<open>product.go\<close>, \<^verbatim>\<open>binary.go\<close>) are embedded
  as HOL functions. Conventions of the embedding:
  \<^item> \<^verbatim>\<open>float32\<close> is the type parameter \<open>'f\<close>. Its arithmetic and comparison are the
    operations of the syntactic classes \<open>zero\<close>, \<open>plus\<close>, \<open>inverse\<close>, \<open>ord\<close>, which carry
    no axioms, so a theorem stated at these sorts holds for every interpretation of the
    operations. Where a theorem needs the laws of an ordered ring it says so in its sort.
  \<^item> Go's \<^verbatim>\<open>int\<close> sizes, counts and loop indices are \<open>nat\<close>: the configuration asks for
    \<^verbatim>\<open>NumSubVectors > 0\<close>, \<^verbatim>\<open>NumCentroids\<close> in \<^verbatim>\<open>[1,256]\<close>, \<^verbatim>\<open>TriggerThreshold \<ge> 0\<close>.
  \<^item> A subslice is a list whose capacity is its length. A \<^verbatim>\<open>nil\<close> subslice is \<open>[]\<close> where the
    code only takes \<^verbatim>\<open>len\<close> or ranges over it, and \<open>None\<close> where the code compares with
    \<^verbatim>\<open>nil\<close> (the threshold of the binary quantizer).
  \<^item> A returned \<^verbatim>\<open>error\<close> and a run-time panic are both \<open>Inl\<close> of the type \<open>error\<close>.
  \<^item> Logging is not modelled.
\<close>

type_synonym u8 = "8 word"
type_synonym u64 = "64 word"

datatype error =
    InvalidGeometry
  | UnsupportedDistance
  | StorageFailure
  | PanicDivideByZero
  | PanicIndexOutOfRange
  | PanicSliceBounds

text \<open>A \<^verbatim>\<open>for\<close> loop over the values \<open>xs\<close> with loop state \<open>s\<close>; a failing body ends it.\<close>

primrec forLoop :: "'a list \<Rightarrow> ('a \<Rightarrow> 's \<Rightarrow> error + 's) \<Rightarrow> 's \<Rightarrow> error + 's" where
  "forLoop [] body s = Inr s"
| "forLoop (x # xs) body s =
     (case body x s of Inl e \<Rightarrow> Inl e | Inr s' \<Rightarrow> forLoop xs body s')"

text \<open>Go's \<^verbatim>\<open>xs[lo:hi]\<close>, \<^verbatim>\<open>xs[i]\<close> and \<^verbatim>\<open>xs[i] = v\<close>, with their bounds checks.\<close>

definition subslice :: "'a list \<Rightarrow> nat \<Rightarrow> nat \<Rightarrow> error + 'a list" where
  "subslice xs lo hi =
     (if lo \<le> hi \<and> hi \<le> length xs then Inr (take (hi - lo) (drop lo xs))
      else Inl PanicSliceBounds)"

definition index :: "'a list \<Rightarrow> nat \<Rightarrow> error + 'a" where
  "index xs i = (if i < length xs then Inr (xs ! i) else Inl PanicIndexOutOfRange)"

definition store :: "'a list \<Rightarrow> nat \<Rightarrow> 'a \<Rightarrow> error + 'a list" where
  "store xs i v = (if i < length xs then Inr (xs[i := v]) else Inl PanicIndexOutOfRange)"

text \<open>Go's \<^verbatim>\<open>copy(dst, src)\<close> into the window of \<open>dst\<close> that starts at \<open>start\<close> and has
  \<open>n\<close> elements: the first \<open>min n (length src)\<close> elements are overwritten.\<close>

definition copyInto :: "'a list \<Rightarrow> nat \<Rightarrow> nat \<Rightarrow> 'a list \<Rightarrow> 'a list" where
  "copyInto dst start n src =
     take start dst @ take n src @ drop (start + min n (length src)) dst"

section \<open>External collaborators\<close>

text \<open>
  Modelled from the spec: the key-value store of \<^verbatim>\<open>storage.Storage\<close> (spec section 6);
  only the interface is in the source. \<^verbatim>\<open>Get\<close> returns the bytes or \<^verbatim>\<open>nil\<close> (\<open>None\<close>);
  \<^verbatim>\<open>Put\<close> stores, or fails and changes nothing (as \<^verbatim>\<open>nullReadOnlyStorage.Put\<close> does).
\<close>

record Storage =
  content :: "u8 list \<rightharpoonup> u8 list"
  IsReadOnly :: bool

definition storage_Get :: "Storage \<Rightarrow> u8 list \<Rightarrow> u8 list option" where
  "storage_Get st k = content st k"

definition storage_Put :: "Storage \<Rightarrow> u8 list \<Rightarrow> u8 list \<Rightarrow> error + Storage" where
  "storage_Put st k v =
     (if IsReadOnly st then Inl StorageFailure
      else Inr (st\<lparr>content := (content st)(k \<mapsto> v)\<rparr>))"

text \<open>Go's \<^verbatim>\<open>[]byte(s)\<close> for the ASCII key constants.\<close>

definition bytes_of :: "string \<Rightarrow> u8 list" where
  "bytes_of s = map (\<lambda>c. of_nat (of_char c)) s"

text \<open>
  Modelled from the spec: \<^verbatim>\<open>conversion.NodeKey\<close> is missing from the source; by spec
  section 4.C and the key table of section 6 the key is the one-byte tag followed by the
  id as 8 big-endian bytes.
\<close>

definition NodeKey :: "u64 \<Rightarrow> u8 \<Rightarrow> u8 list" where
  "NodeKey i tag = tag # map (\<lambda>k. ucast (drop_bit (8 * k) i)) [7, 6, 5, 4, 3, 2, 1, 0]"

definition tag_v :: u8 where "tag_v = 118"
definition tag_q :: u8 where "tag_q = 113"

text \<open>
  Modelled from the spec: \<^verbatim>\<open>conversion.EdgeListToBytes\<close> is missing from the source; by
  spec section 6 the value is the little-endian stream of the 64-bit words.
\<close>

definition EdgeListToBytes :: "u64 list \<Rightarrow> u8 list" where
  "EdgeListToBytes ws =
     concat (map (\<lambda>w. map (\<lambda>k. ucast (drop_bit (8 * k) w)) [0, 1, 2, 3, 4, 5, 6, 7]) ws)"

text \<open>
  What the code needs of \<^verbatim>\<open>float32\<close> beyond arithmetic, taken as parameters: the constant
  \<^verbatim>\<open>math.MaxFloat32\<close>, the conversion \<^verbatim>\<open>float32(count)\<close> and the byte conversions of the
  missing package \<^verbatim>\<open>conversion\<close>.
\<close>

record 'f float32_env =
  MaxFloat32 :: 'f
  float32 :: "nat \<Rightarrow> 'f"
  Float32ToBytes :: "'f list \<Rightarrow> u8 list"
  BytesToFloat32 :: "u8 list \<Rightarrow> 'f list"

text \<open>
  Modelled from the spec: the float kernels of the missing package \<^verbatim>\<open>distance\<close> (spec
  section 4.A). \<open>euclidean\<close> is the squared distance (the spec leaves squared or true to the
  deployment; sign, symmetry, zero diagonal and the nearest centroid are the same for
  both), \<open>dot\<close> the raw dot product (section 4.E: "the library reports the raw float kernel
  under that name"), \<open>cosine\<close> the cosine distance of normalised vectors. Each is a loop over
  the paired coordinates with a running sum.
\<close>

definition euclidean :: "'f::{zero,plus,minus,times} list \<Rightarrow> 'f list \<Rightarrow> 'f" where
  "euclidean x y = foldl (\<lambda>acc (a, b). acc + (a - b) * (a - b)) 0 (zip x y)"

definition dot :: "'f::{zero,plus,times} list \<Rightarrow> 'f list \<Rightarrow> 'f" where
  "dot x y = foldl (\<lambda>acc (a, b). acc + a * b) 0 (zip x y)"

definition cosine :: "'f::{zero,one,plus,minus,times} list \<Rightarrow> 'f list \<Rightarrow> 'f" where
  "cosine x y = 1 - dot x y"

definition DistanceEuclidean :: string where "DistanceEuclidean = ''euclidean''"
definition DistanceCosine :: string where "DistanceCosine = ''cosine''"
definition DistanceDot :: string where "DistanceDot = ''dot''"

text \<open>Modelled from the spec: \<^verbatim>\<open>distance.GetFloatDistanceFn\<close>, the lookup of a kernel by
  name, failing on an unknown name (spec section 4.A).\<close>

definition GetFloatDistanceFn ::
  "string \<Rightarrow> error + ('f::{zero,one,plus,minus,times} list \<Rightarrow> 'f list \<Rightarrow> 'f)" where
  "GetFloatDistanceFn name =
     (if name = DistanceEuclidean then Inr euclidean
      else if name = DistanceCosine then Inr cosine
      else if name = DistanceDot then Inr dot
      else Inl UnsupportedDistance)"

text \<open>
  Modelled from the spec: \<^verbatim>\<open>cache.ItemCache\<close> is missing from the source (spec section
  4.D). The model keeps the points the cache holds in memory, in the order \<^verbatim>\<open>ForEach\<close>
  visits them, and the store behind it; \<^verbatim>\<open>Count\<close> and \<^verbatim>\<open>ForEach\<close> range over these
  points. Loading a point that is only in the store is not modelled.
\<close>

record 'p ItemCache =
  resident :: "(u64 \<times> 'p) list"
  backing :: Storage

definition NewItemCache :: "Storage \<Rightarrow> 'p ItemCache" where
  "NewItemCache st = \<lparr>resident = [], backing = st\<rparr>"

definition Count :: "'p ItemCache \<Rightarrow> nat" where
  "Count c = length (resident c)"

section \<open>Product quantizer\<close>

record ProductQuantizerParameters =
  NumCentroids :: nat
  NumSubVectors :: nat
  TriggerThreshold :: nat

record 'f productQuantizedPoint =
  id_pq :: u64
  Vector :: "'f list"
  CentroidIds :: "u8 list"
  isDirty :: bool

record 'f productQuantizer =
  params :: ProductQuantizerParameters
  distFn :: "'f list \<Rightarrow> 'f list \<Rightarrow> 'f"
  originalVectorLen :: nat
  subVectorLen :: nat
  distFnName :: string
  items :: "'f productQuantizedPoint ItemCache"
  centroidDists :: "'f list"
  flatCentroids :: "'f list"
  storage :: Storage

definition productQuantizerCentroidDistsKey :: string where
  "productQuantizerCentroidDistsKey = ''_productQuantizerCentroidDists''"

definition productQuantizerFlatCentroidsKey :: string where
  "productQuantizerFlatCentroidsKey = ''_productQuantizerFlatCentroids''"

text \<open>\<^verbatim>\<open>newProductQuantizer\<close>. The two \<^verbatim>\<open>fmt.Errorf\<close> results about the geometry are
  \<open>InvalidGeometry\<close>, the one about the name is \<open>UnsupportedDistance\<close>; \<^verbatim>\<open>vectorLen %
  params.NumSubVectors\<close> panics on a zero divisor.\<close>

definition newProductQuantizer ::
  "'f::{zero,one,plus,minus,times} float32_env \<Rightarrow> Storage \<Rightarrow> string \<Rightarrow>
     ProductQuantizerParameters \<Rightarrow> nat \<Rightarrow> error + 'f productQuantizer" where
  "newProductQuantizer E st name ps vectorLen =
     (if NumSubVectors ps = 0 then Inl PanicDivideByZero
      else if vectorLen mod NumSubVectors ps \<noteq> 0 then Inl InvalidGeometry
      else if name \<noteq> DistanceEuclidean \<and> name \<noteq> DistanceCosine \<and> name \<noteq> DistanceDot
        then Inl UnsupportedDistance
      else
        let name' = (if name = DistanceCosine then DistanceEuclidean else name) in
        if NumCentroids ps > 256 then Inl InvalidGeometry
        else
          (case GetFloatDistanceFn name' of
             Inl e \<Rightarrow> Inl e
           | Inr fn \<Rightarrow>
               Inr \<lparr>params = ps,
                    distFn = fn,
                    originalVectorLen = vectorLen,
                    subVectorLen = vectorLen div NumSubVectors ps,
                    distFnName = name',
                    items = NewItemCache st,
                    centroidDists =
                      (case storage_Get st (bytes_of productQuantizerCentroidDistsKey) of
                         None \<Rightarrow> [] | Some buff \<Rightarrow> BytesToFloat32 E buff),
                    flatCentroids =
                      (case storage_Get st (bytes_of productQuantizerFlatCentroidsKey) of
                         None \<Rightarrow> [] | Some buff \<Rightarrow> BytesToFloat32 E buff),
                    storage = st\<rparr>))"

definition centroidDistIdx :: "'f productQuantizer \<Rightarrow> nat \<Rightarrow> nat \<Rightarrow> nat \<Rightarrow> nat" where
  "centroidDistIdx pq subvector centroidX centroidY =
     subvector * NumCentroids (params pq) * NumCentroids (params pq)
       + centroidX * NumCentroids (params pq) + centroidY"

definition flatCentroidSlice :: "'f productQuantizer \<Rightarrow> nat \<Rightarrow> nat \<Rightarrow> nat \<times> nat" where
  "flatCentroidSlice pq subvector centroid =
     (let start = subvector * NumCentroids (params pq) * subVectorLen pq
                    + centroid * subVectorLen pq
      in (start, start + subVectorLen pq))"

text \<open>\<^verbatim>\<open>productQuantizer.encode\<close>: the inner loop over the centroids of subvector \<open>i\<close>, with
  the loop state \<^verbatim>\<open>(closestCentroidDistance, closestCentroidId)\<close>, then the outer loop.\<close>

definition closestCentroid ::
  "'f::ord float32_env \<Rightarrow> 'f productQuantizer \<Rightarrow> nat \<Rightarrow> 'f list \<Rightarrow> error + ('f \<times> nat)" where
  "closestCentroid E pq i subVector =
     forLoop [0..<NumCentroids (params pq)]
       (\<lambda>j (closestCentroidDistance, closestCentroidId).
          case flatCentroidSlice pq i j of (sliceStart, sliceEnd) \<Rightarrow>
            (case subslice (flatCentroids pq) sliceStart sliceEnd of
               Inl e \<Rightarrow> Inl e
             | Inr centroid \<Rightarrow>
                 let dist = distFn pq subVector centroid in
                 if dist < closestCentroidDistance then Inr (dist, j)
                 else Inr (closestCentroidDistance, closestCentroidId)))
       (MaxFloat32 E, 0)"

definition pq_encode ::
  "'f::ord float32_env \<Rightarrow> 'f productQuantizer \<Rightarrow> 'f list \<Rightarrow> error + u8 list" where
  "pq_encode E pq vector =
     (if length (flatCentroids pq) = 0 then Inr []
      else
        forLoop [0..<NumSubVectors (params pq)]
          (\<lambda>i encoded.
             case subslice vector (i * subVectorLen pq) ((i + 1) * subVectorLen pq) of
               Inl e \<Rightarrow> Inl e
             | Inr subVector \<Rightarrow>
                 (case closestCentroid E pq i subVector of
                    Inl e \<Rightarrow> Inl e
                  | Inr (closestCentroidDistance, closestCentroidId) \<Rightarrow>
                      store encoded i (of_nat closestCentroidId)))
          (replicate (NumSubVectors (params pq)) 0))"

text \<open>The trainer \<^verbatim>\<open>kmeans.KMeans\<close> is a struct of the missing package \<^verbatim>\<open>kmeans\<close>; the
  code sets four fields, calls \<^verbatim>\<open>Fit\<close> and reads \<^verbatim>\<open>Centroids\<close> and \<^verbatim>\<open>Labels\<close>.\<close>

record 'f KMeans =
  K_km :: nat
  MaxIter :: nat
  Offset :: nat
  VectorLen :: nat
  Centroids :: "'f list list"
  Labels :: "u8 list"

text \<open>
  Modelled from the spec: \<^verbatim>\<open>kmeans.KMeans.Fit\<close> is missing from the source. By spec
  section 4.B it is Lloyd's iteration on the window \<^verbatim>\<open>(Offset, VectorLen)\<close> of the vectors:
  the initial centroids are the first \<open>K\<close> distinct rows, padded with the last distinct
  one; each round assigns every row to its nearest centroid in Euclidean distance (the
  lowest index on a tie) and replaces every centroid by the mean of its rows, an empty
  cluster keeping its centroid; it stops when the labels repeat or after \<^verbatim>\<open>MaxIter\<close>
  rounds. \<open>pq_Fit\<close> below takes the trainer as a parameter, so that its theorems hold for
  every trainer; this one is used where a concrete run is evaluated.
\<close>

definition firstDistinct :: "'a list \<Rightarrow> 'a list" where
  "firstDistinct rows = rev (remdups (rev rows))"

definition initialCentroids :: "nat \<Rightarrow> nat \<Rightarrow> 'f::zero list list \<Rightarrow> 'f list list" where
  "initialCentroids k d rows =
     (let ds = firstDistinct rows in
      if ds = [] then replicate k (replicate d 0)
      else take k ds @ replicate (k - length ds) (last ds))"

definition nearestCentroid :: "'f::{zero,plus,minus,times,ord} list list \<Rightarrow> 'f list \<Rightarrow> nat" where
  "nearestCentroid cs row =
     snd (foldl (\<lambda>(best, c) j.
                   if euclidean row (cs ! j) < best then (euclidean row (cs ! j), j) else (best, c))
            (euclidean row (cs ! 0), 0) [1..<length cs])"

definition clusterMean :: "'f::{zero,plus,inverse} float32_env \<Rightarrow> nat \<Rightarrow> 'f list list \<Rightarrow> 'f list" where
  "clusterMean E d members =
     map (\<lambda>i. foldl (+) 0 (map (\<lambda>r. r ! i) members) / float32 E (length members)) [0..<d]"

definition updateCentroids ::
  "'f::{zero,plus,inverse} float32_env \<Rightarrow> nat \<Rightarrow> 'f list list \<Rightarrow> nat list \<Rightarrow> 'f list list \<Rightarrow> 'f list list" where
  "updateCentroids E d rows labels cs =
     map (\<lambda>c. let members = map fst (filter (\<lambda>(r, l). l = c) (zip rows labels))
              in if members = [] then cs ! c else clusterMean E d members)
       [0..<length cs]"

fun lloyd ::
  "'f::{zero,plus,minus,times,inverse,ord} float32_env \<Rightarrow> nat \<Rightarrow> 'f list list \<Rightarrow> nat \<Rightarrow>
     'f list list \<Rightarrow> nat list \<Rightarrow> 'f list list \<times> nat list" where
  "lloyd E d rows 0 cs labels = (cs, labels)"
| "lloyd E d rows (Suc n) cs labels =
     (let labels' = map (nearestCentroid cs) rows in
      if labels' = labels then (cs, labels)
      else lloyd E d rows n (updateCentroids E d rows labels' cs) labels')"

definition KMeans_Fit ::
  "'f::{zero,plus,minus,times,inverse,ord} float32_env \<Rightarrow> 'f KMeans \<Rightarrow> 'f list list \<Rightarrow> 'f KMeans" where
  "KMeans_Fit E km vectors =
     (let rows = map (\<lambda>v. take (VectorLen km) (drop (Offset km) v)) vectors in
      case lloyd E (VectorLen km) rows (MaxIter km)
             (initialCentroids (K_km km) (VectorLen km) rows) [] of
        (cs, labels) \<Rightarrow> km\<lparr>Centroids := cs, Labels := map of_nat labels\<rparr>)"

text \<open>
  \<^verbatim>\<open>productQuantizer.Fit\<close>. The trainer's \<^verbatim>\<open>Fit\<close> is the parameter \<open>kmeansFit\<close>. The source
  runs the body below once per subvector in goroutines that write disjoint parts of the
  tables and of each point's code; the model runs them in the order of the subvectors.
  \<open>fitSubvector\<close> is the body of one goroutine, on the state \<^verbatim>\<open>(allPoints,
  pq.flatCentroids, pq.centroidDists)\<close>; its three loops are \<open>updateCodes\<close>,
  \<open>updateFlatCentroids\<close> and \<open>updateCentroidDists\<close>.
\<close>

definition updateCodes ::
  "u8 list \<Rightarrow> nat \<Rightarrow> (u64 \<times> 'f productQuantizedPoint) list \<Rightarrow>
     error + (u64 \<times> 'f productQuantizedPoint) list" where
  "updateCodes labels i allPoints =
     forLoop [0..<length allPoints]
       (\<lambda>j pts.
          case index labels j of
            Inl e \<Rightarrow> Inl e
          | Inr l \<Rightarrow>
              (case store (CentroidIds (snd (pts ! j))) i l of
                 Inl e \<Rightarrow> Inl e
               | Inr ids \<Rightarrow>
                   Inr (pts[j := (fst (pts ! j), (snd (pts ! j))\<lparr>CentroidIds := ids\<rparr>)])))
       allPoints"

definition updateFlatCentroids ::
  "'f productQuantizer \<Rightarrow> 'f list list \<Rightarrow> nat \<Rightarrow> 'f list \<Rightarrow> error + 'f list" where
  "updateFlatCentroids pq centroids i flat =
     forLoop [0..<NumCentroids (params pq)]
       (\<lambda>j fl.
          case flatCentroidSlice pq i j of (start, end) \<Rightarrow>
            (case subslice fl start end of
               Inl e \<Rightarrow> Inl e
             | Inr window \<Rightarrow>
                 (case index centroids j of
                    Inl e \<Rightarrow> Inl e
                  | Inr c \<Rightarrow> Inr (copyInto fl start (length window) c))))
       flat"

definition updateCentroidDists ::
  "'f productQuantizer \<Rightarrow> 'f list list \<Rightarrow> nat \<Rightarrow> 'f list \<Rightarrow> error + 'f list" where
  "updateCentroidDists pq centroids i dists =
     forLoop [0..<NumCentroids (params pq)]
       (\<lambda>j ds.
          forLoop [0..<NumCentroids (params pq)]
            (\<lambda>k ds.
               case index centroids j of
                 Inl e \<Rightarrow> Inl e
               | Inr cj \<Rightarrow>
                   (case index centroids k of
                      Inl e \<Rightarrow> Inl e
                    | Inr ck \<Rightarrow> store ds (centroidDistIdx pq i j k) (distFn pq cj ck)))
            ds)
       dists"

definition trainSubvector ::
  "('f KMeans \<Rightarrow> 'f list list \<Rightarrow> 'f KMeans) \<Rightarrow> 'f productQuantizer \<Rightarrow> 'f list list \<Rightarrow> nat \<Rightarrow>
     'f KMeans" where
  "trainSubvector kmeansFit pq allVectors i =
     kmeansFit \<lparr>K_km = NumCentroids (params pq), MaxIter = 100,
                Offset = i * subVectorLen pq, VectorLen = subVectorLen pq,
                Centroids = [], Labels = []\<rparr> allVectors"

definition fitSubvector ::
  "('f KMeans \<Rightarrow> 'f list list \<Rightarrow> 'f KMeans) \<Rightarrow> 'f productQuantizer \<Rightarrow> 'f list list \<Rightarrow> nat \<Rightarrow>
     (u64 \<times> 'f productQuantizedPoint) list \<times> 'f list \<times> 'f list \<Rightarrow>
     error + ((u64 \<times> 'f productQuantizedPoint) list \<times> 'f list \<times> 'f list)" where
  "fitSubvector kmeansFit pq allVectors i st =
     (case st of (allPoints, flat, dists) \<Rightarrow>
        let kmeans = trainSubvector kmeansFit pq allVectors i in
        (case updateCodes (Labels kmeans) i allPoints of
           Inl e \<Rightarrow> Inl e
         | Inr allPoints' \<Rightarrow>
             (case updateFlatCentroids pq (Centroids kmeans) i flat of
                Inl e \<Rightarrow> Inl e
              | Inr flat' \<Rightarrow>
                  (case updateCentroidDists pq (Centroids kmeans) i dists of
                     Inl e \<Rightarrow> Inl e
                   | Inr dists' \<Rightarrow> Inr (allPoints', flat', dists')))))"

definition pq_Fit ::
  "('f::zero KMeans \<Rightarrow> 'f list list \<Rightarrow> 'f KMeans) \<Rightarrow> 'f productQuantizer \<Rightarrow>
     error + 'f productQuantizer" where
  "pq_Fit kmeansFit pq =
     (if length (flatCentroids pq) \<noteq> 0 then Inr pq
      else
        let itemCount = Count (items pq) in
        if itemCount < TriggerThreshold (params pq) then Inr pq
        else
          let allVectors = map (\<lambda>(i, point). Vector point) (resident (items pq));
              allPoints =
                map (\<lambda>(i, point).
                       (i, point\<lparr>CentroidIds := replicate (NumSubVectors (params pq)) 0,
                                 isDirty := True\<rparr>))
                  (resident (items pq))
          in
          case forLoop [0..<NumSubVectors (params pq)] (fitSubvector kmeansFit pq allVectors)
                 (allPoints,
                  replicate (NumSubVectors (params pq) * NumCentroids (params pq)
                               * subVectorLen pq) 0,
                  replicate (NumSubVectors (params pq) * NumCentroids (params pq)
                               * NumCentroids (params pq)) 0) of
            Inl e \<Rightarrow> Inl e
          | Inr (allPoints', flat, dists) \<Rightarrow>
              Inr (pq\<lparr>items := (items pq)\<lparr>resident := allPoints'\<rparr>,
                      flatCentroids := flat, centroidDists := dists\<rparr>))"

section \<open>Binary quantizer: data\<close>

record 'f BinaryQuantizerParamaters =
  TriggerThreshold_bq :: nat
  DistanceMetric :: string
  Threshold :: "'f option"

record 'f binaryQuantizedPoint =
  id_bq :: u64
  Vector_bq :: "'f list"
  BinaryVector :: "u64 list"
  isDirty_bq :: bool

record 'f binaryQuantizer =
  threshold :: "'f list option"
  params_bq :: "'f BinaryQuantizerParamaters"
  items_bq :: "'f binaryQuantizedPoint ItemCache"
  storage_bq :: Storage
  floatDistFn :: "'f list \<Rightarrow> 'f list \<Rightarrow> 'f"
  bitDistFn :: "u64 list \<Rightarrow> u64 list \<Rightarrow> 'f"

text \<open>The interface \<^verbatim>\<open>VectorStorePoint\<close> with the two point types of this package; the
  type assertion \<^verbatim>\<open>y.(*productQuantizedPoint)\<close> is the case distinction.\<close>

datatype 'f VectorStorePoint =
    PQPoint "'f productQuantizedPoint"
  | BQPoint "'f binaryQuantizedPoint"

section \<open>Product quantizer: distance closures\<close>

text \<open>\<^verbatim>\<open>productQuantizer.DistanceFromFloat\<close>: first the table \<^verbatim>\<open>dists\<close> that the function
  fills before it returns, then the function itself. The closure it returns is a function
  of the point; it can panic on its own, so it returns a sum as well.\<close>

definition pq_DistanceFromFloat_dists ::
  "'f::zero productQuantizer \<Rightarrow> 'f list \<Rightarrow> error + 'f list" where
  "pq_DistanceFromFloat_dists pq x =
     forLoop [0..<NumSubVectors (params pq)]
       (\<lambda>i dists.
          case subslice x (i * subVectorLen pq) ((i + 1) * subVectorLen pq) of
            Inl e \<Rightarrow> Inl e
          | Inr subvector \<Rightarrow>
              forLoop [0..<NumCentroids (params pq)]
                (\<lambda>j dists.
                   case flatCentroidSlice pq i j of (start, end) \<Rightarrow>
                     (case subslice (flatCentroids pq) start end of
                        Inl e \<Rightarrow> Inl e
                      | Inr centroid \<Rightarrow>
                          store dists (i * NumCentroids (params pq) + j)
                            (distFn pq subvector centroid)))
                dists)
       (replicate (NumSubVectors (params pq) * NumCentroids (params pq)) 0)"

definition pq_DistanceFromFloat ::
  "'f::{zero,plus} float32_env \<Rightarrow> 'f productQuantizer \<Rightarrow> 'f list \<Rightarrow>
     error + ('f VectorStorePoint \<Rightarrow> error + 'f)" where
  "pq_DistanceFromFloat E pq x =
     (if length (flatCentroids pq) = 0 then
        Inr (\<lambda>y. case y of
                    PQPoint pointY \<Rightarrow> Inr (distFn pq x (Vector pointY))
                  | BQPoint other \<Rightarrow> Inr (MaxFloat32 E))
      else
        (case pq_DistanceFromFloat_dists pq x of
           Inl e \<Rightarrow> Inl e
         | Inr dists \<Rightarrow>
             Inr (\<lambda>y. case y of
                         PQPoint pointY \<Rightarrow>
                           forLoop [0..<NumSubVectors (params pq)]
                             (\<lambda>i dist.
                                case index (CentroidIds pointY) i of
                                  Inl e \<Rightarrow> Inl e
                                | Inr c \<Rightarrow>
                                    (case index dists (i * NumCentroids (params pq) + unat c) of
                                       Inl e \<Rightarrow> Inl e
                                     | Inr d \<Rightarrow> Inr (dist + d)))
                             0
                       | BQPoint other \<Rightarrow> Inr (MaxFloat32 E))))"

text \<open>\<^verbatim>\<open>productQuantizer.DistanceFromPoint\<close>.\<close>

definition pq_DistanceFromPoint ::
  "'f::{zero,plus} float32_env \<Rightarrow> 'f productQuantizer \<Rightarrow> 'f VectorStorePoint \<Rightarrow>
     'f VectorStorePoint \<Rightarrow> error + 'f" where
  "pq_DistanceFromPoint E pq x =
     (if length (flatCentroids pq) = 0 then
        (\<lambda>y. case (x, y) of
                (PQPoint pointX, PQPoint pointY) \<Rightarrow> Inr (distFn pq (Vector pointX) (Vector pointY))
              | _ \<Rightarrow> Inr (MaxFloat32 E))
      else
        (\<lambda>y. case (x, y) of
                (PQPoint pointX, PQPoint pointY) \<Rightarrow>
                  forLoop [0..<NumSubVectors (params pq)]
                    (\<lambda>i dist.
                       case index (CentroidIds pointX) i of
                         Inl e \<Rightarrow> Inl e
                       | Inr cx \<Rightarrow>
                           (case index (CentroidIds pointY) i of
                              Inl e \<Rightarrow> Inl e
                            | Inr cy \<Rightarrow>
                                (case index (centroidDists pq)
                                        (centroidDistIdx pq i (unat cx) (unat cy)) of
                                   Inl e \<Rightarrow> Inl e
                                 | Inr d \<Rightarrow> Inr (dist + d))))
                    0
              | _ \<Rightarrow> Inr (MaxFloat32 E)))"

section \<open>Binary quantizer: operations\<close>

text \<open>\<^verbatim>\<open>binaryQuantizer.encode\<close>; \<open>Inr None\<close> is the \<^verbatim>\<open>nil\<close> result.\<close>

definition bq_encode :: "'f::ord binaryQuantizer \<Rightarrow> 'f list \<Rightarrow> error + u64 list option" where
  "bq_encode bq vector =
     (case threshold bq of
        None \<Rightarrow> Inr None
      | Some thr \<Rightarrow>
          let numUint64s = length vector div 64;
              numUint64s = (if length vector mod 64 \<noteq> 0 then numUint64s + 1 else numUint64s)
          in
          (case forLoop [0..<length vector]
                  (\<lambda>i encoded.
                     case index thr i of
                       Inl e \<Rightarrow> Inl e
                     | Inr t \<Rightarrow>
                         if vector ! i > t
                         then store encoded (i div 64)
                                (encoded ! (i div 64) OR push_bit (i mod 64) 1)
                         else Inr encoded)
                  (replicate numUint64s 0) of
             Inl e \<Rightarrow> Inl e
           | Inr encoded \<Rightarrow> Inr (Some encoded)))"

text \<open>\<^verbatim>\<open>binaryQuantizer.Fit\<close>: the gate; the first pass \<open>sumVectors\<close> with the state
  \<^verbatim>\<open>(sum, count)\<close> (the variable \<^verbatim>\<open>sum\<close> is \<open>None\<close> while it is \<^verbatim>\<open>nil\<close>); the division;
  the second pass \<open>encodePoints\<close>, which encodes each point against the new threshold.\<close>

definition sumVectors ::
  "(u64 \<times> 'f::{zero,plus} binaryQuantizedPoint) list \<Rightarrow> error + ('f list option \<times> nat)" where
  "sumVectors points =
     forLoop points
       (\<lambda>(i, point) (acc, count).
          let sum0 = (case acc of
                        None \<Rightarrow> replicate (length (Vector_bq point)) 0
                      | Some s \<Rightarrow> s)
          in
          (case forLoop [0..<length (Vector_bq point)]
                  (\<lambda>i s. case index s i of
                            Inl e \<Rightarrow> Inl e
                          | Inr a \<Rightarrow> store s i (a + Vector_bq point ! i))
                  sum0 of
             Inl e \<Rightarrow> Inl e
           | Inr sum1 \<Rightarrow> Inr (Some sum1, count + 1)))
       (None, 0)"

definition encodePoints ::
  "'f::ord binaryQuantizer \<Rightarrow> (u64 \<times> 'f binaryQuantizedPoint) list \<Rightarrow>
     error + (u64 \<times> 'f binaryQuantizedPoint) list" where
  "encodePoints bq points =
     forLoop points
       (\<lambda>(i, point) encodedPoints.
          case bq_encode bq (Vector_bq point) of
            Inl e \<Rightarrow> Inl e
          | Inr encoded \<Rightarrow>
              Inr (encodedPoints @
                   [(i, point\<lparr>BinaryVector := (case encoded of None \<Rightarrow> [] | Some ws \<Rightarrow> ws),
                             isDirty_bq := True\<rparr>)]))
       []"

definition bq_Fit ::
  "'f::{zero,plus,inverse,ord} float32_env \<Rightarrow> 'f binaryQuantizer \<Rightarrow> error + 'f binaryQuantizer" where
  "bq_Fit E bq =
     (if threshold bq \<noteq> None \<or> Count (items_bq bq) < TriggerThreshold_bq (params_bq bq)
      then Inr bq
      else
        (case sumVectors (resident (items_bq bq)) of
           Inl e \<Rightarrow> Inl e
         | Inr (acc, count) \<Rightarrow>
             let bq1 = bq\<lparr>threshold := map_option (map (\<lambda>s. s / float32 E count)) acc\<rparr> in
             (case encodePoints bq1 (resident (items_bq bq)) of
                Inl e \<Rightarrow> Inl e
              | Inr points \<Rightarrow> Inr (bq1\<lparr>items_bq := (items_bq bq)\<lparr>resident := points\<rparr>\<rparr>))))"

text \<open>\<^verbatim>\<open>binaryQuantizedPoint.WriteTo\<close>: the result is the store after the call.\<close>

definition bqp_WriteTo ::
  "'f float32_env \<Rightarrow> 'f binaryQuantizedPoint \<Rightarrow> u64 \<Rightarrow> Storage \<Rightarrow> error + Storage" where
  "bqp_WriteTo E bqp i st =
     (if length (BinaryVector bqp) \<noteq> 0 then
        (case storage_Put st (NodeKey i tag_q) (EdgeListToBytes (BinaryVector bqp)) of
           Inl e \<Rightarrow> Inl e
         | Inr st' \<Rightarrow> Inr st')
      else if length (Vector_bq bqp) \<noteq> 0 then
        (case storage_Put st (NodeKey i tag_v) (Float32ToBytes E (Vector_bq bqp)) of
           Inl e \<Rightarrow> Inl e
         | Inr st' \<Rightarrow> Inr st')
      else Inr st)"

section \<open>Notions used in the statements\<close>

text \<open>The \<open>m\<close>-th subvector of a vector and centroid \<open>c\<close> of subvector \<open>m\<close> in the flat
  table (row-major: subvector, centroid, offset), as the code slices them.\<close>

definition subvectorAt :: "'f productQuantizer \<Rightarrow> 'f list \<Rightarrow> nat \<Rightarrow> 'f list" where
  "subvectorAt pq x m = take (subVectorLen pq) (drop (m * subVectorLen pq) x)"

definition centroidAt :: "'f productQuantizer \<Rightarrow> nat \<Rightarrow> nat \<Rightarrow> 'f list" where
  "centroidAt pq m c =
     take (subVectorLen pq)
       (drop (m * NumCentroids (params pq) * subVectorLen pq + c * subVectorLen pq)
          (flatCentroids pq))"

text \<open>
  \<open>closestTo E pq x m c\<close>: what the inner loop of \<^verbatim>\<open>encode\<close> selects for subvector \<open>m\<close>.
  If some centroid's distance under the quantizer's kernel is below \<^verbatim>\<open>math.MaxFloat32\<close>,
  \<open>c\<close> is the lowest index of a centroid at the least distance; otherwise \<open>c\<close> is \<open>0\<close>, the
  initial value of \<^verbatim>\<open>closestCentroidId\<close>.
\<close>

definition closestTo ::
  "'f::ord float32_env \<Rightarrow> 'f productQuantizer \<Rightarrow> 'f list \<Rightarrow> nat \<Rightarrow> nat \<Rightarrow> bool" where
  "closestTo E pq x m c =
     (let ds = (\<lambda>j. distFn pq (subvectorAt pq x m) (centroidAt pq m j)) in
      if list_ex (\<lambda>j. ds j < MaxFloat32 E) [0..<NumCentroids (params pq)]
      then c < NumCentroids (params pq)
           \<and> list_all (\<lambda>j. ds c \<le> ds j) [0..<NumCentroids (params pq)]
           \<and> list_all (\<lambda>j. ds c < ds j) [0..<c]
      else c = 0)"

text \<open>The mean of coordinate \<open>i\<close> over the points: the coordinates added in the order of
  the points, starting from zero, divided by \<^verbatim>\<open>float32(count)\<close>.\<close>

definition coordinateMean ::
  "'f::{zero,plus,inverse} float32_env \<Rightarrow> (u64 \<times> 'f binaryQuantizedPoint) list \<Rightarrow> nat \<Rightarrow> 'f" where
  "coordinateMean E points i =
     foldl (+) 0 (map (\<lambda>(k, point). Vector_bq point ! i) points) / float32 E (length points)"

text \<open>The vectors \<^verbatim>\<open>Fit\<close> hands to the trainer, and what \<^verbatim>\<open>Fit\<close> reads of the trainer's
  result without a bounds check of its own: \<^verbatim>\<open>kmeans.Centroids[j]\<close> for \<open>j < K\<close> and
  \<^verbatim>\<open>kmeans.Labels[j]\<close> for every point, on each subvector (spec section 4.B: \<open>K\<close> centroids,
  one label per input).\<close>

definition allVectorsOf :: "'f productQuantizer \<Rightarrow> 'f list list" where
  "allVectorsOf pq = map (\<lambda>(i, point). Vector point) (resident (items pq))"

definition trainerContract ::
  "('f KMeans \<Rightarrow> 'f list list \<Rightarrow> 'f KMeans) \<Rightarrow> 'f productQuantizer \<Rightarrow> bool" where
  "trainerContract kmeansFit pq \<longleftrightarrow>
     list_all
       (\<lambda>m. NumCentroids (params pq)
               \<le> length (Centroids (trainSubvector kmeansFit pq (allVectorsOf pq) m))
             \<and> length (resident (items pq))
               \<le> length (Labels (trainSubvector kmeansFit pq (allVectorsOf pq) m)))
       [0..<NumSubVectors (params pq)]"

section \<open>Concrete instances\<close>

text \<open>Instances at the type \<open>real\<close>, on which the theorems below are exercised, with
  small inputs on which \<^verbatim>\<open>float32\<close> arithmetic and comparison give the same results.
  \<open>supportedName\<close> is the set of names the constructor accepts.\<close>

definition realEnv :: "real float32_env" where
  "realEnv = \<lparr>MaxFloat32 = 340282346638528859811704183484516925440, float32 = real,
              Float32ToBytes = (\<lambda>v. replicate (4 * length v) 0), BytesToFloat32 = (\<lambda>b. [])\<rparr>"

definition emptyStorage :: Storage where
  "emptyStorage = \<lparr>content = Map.empty, IsReadOnly = False\<rparr>"

definition bqOf :: "real list option \<Rightarrow> nat \<Rightarrow> (u64 \<times> real binaryQuantizedPoint) list \<Rightarrow> real binaryQuantizer" where
  "bqOf thr trigger points =
     \<lparr>threshold = thr,
      params_bq = \<lparr>TriggerThreshold_bq = trigger, DistanceMetric = ''hamming'', Threshold = None\<rparr>,
      items_bq = \<lparr>resident = points, backing = emptyStorage\<rparr>,
      storage_bq = emptyStorage,
      floatDistFn = euclidean,
      bitDistFn = (\<lambda>x y. 0)\<rparr>"

definition pqOf ::
  "string \<Rightarrow> (real list \<Rightarrow> real list \<Rightarrow> real) \<Rightarrow> nat \<Rightarrow> nat \<Rightarrow> nat \<Rightarrow> nat \<Rightarrow>
     (u64 \<times> real productQuantizedPoint) list \<Rightarrow> real list \<Rightarrow> real list \<Rightarrow> real productQuantizer" where
  "pqOf name fn m k d trigger points flat dists =
     \<lparr>params = \<lparr>NumCentroids = k, NumSubVectors = m, TriggerThreshold = trigger\<rparr>,
      distFn = fn,
      originalVectorLen = m * d,
      subVectorLen = d,
      distFnName = name,
      items = \<lparr>resident = points, backing = emptyStorage\<rparr>,
      centroidDists = dists,
      flatCentroids = flat,
      storage = emptyStorage\<rparr>"

definition pqPoint :: "u64 \<Rightarrow> real list \<Rightarrow> u8 list \<Rightarrow> bool \<Rightarrow> real productQuantizedPoint" where
  "pqPoint i v c d = \<lparr>id_pq = i, Vector = v, CentroidIds = c, isDirty = d\<rparr>"

definition bqPoint :: "u64 \<Rightarrow> real list \<Rightarrow> u64 list \<Rightarrow> bool \<Rightarrow> real binaryQuantizedPoint" where
  "bqPoint i v b d = \<lparr>id_bq = i, Vector_bq = v, BinaryVector = b, isDirty_bq = d\<rparr>"

definition supportedName :: "string \<Rightarrow> bool" where
  "supportedName name \<longleftrightarrow>
     name = DistanceEuclidean \<or> name = DistanceCosine \<or> name = DistanceDot"

definition twoPoints :: "(u64 \<times> real productQuantizedPoint) list" where
  "twoPoints = [(1, pqPoint 1 [0, 4] [] False), (2, pqPoint 2 [2, 8] [] False)]"

definition twoBinaryPoints :: "(u64 \<times> real binaryQuantizedPoint) list" where
  "twoBinaryPoints = [(1, bqPoint 1 [0, 0, 0, 0] [] False), (2, bqPoint 2 [2, 2, 2, 2] [] False)]"

definition storedVector :: Storage where
  "storedVector = \<lparr>content = [NodeKey 7 tag_v \<mapsto> [0, 0, 128, 63]], IsReadOnly = False\<rparr>"

definition fittedPQ :: "string \<Rightarrow> (real list \<Rightarrow> real list \<Rightarrow> real) \<Rightarrow> real list \<Rightarrow> real productQuantizer" where
  "fittedPQ name fn flat = pqOf name fn 2 2 1 0 [] flat []"

definition oppositePoints :: "(u64 \<times> real productQuantizedPoint) list" where
  "oppositePoints = [(1, pqPoint 1 [1] [] False), (2, pqPoint 2 [- 1] [] False)]"

definition dotPoints :: "(u64 \<times> real productQuantizedPoint) list" where
  "dotPoints = [(1, pqPoint 1 [2, 1] [] False), (2, pqPoint 2 [1, 3] [] False)]"

text \<open>An environment whose \<^verbatim>\<open>BytesToFloat32\<close> reads every byte as a number, and a store
  that holds the two tables of a fitted quantizer under the constructor's keys.\<close>

definition byteEnv :: "real float32_env" where
  "byteEnv = \<lparr>MaxFloat32 = 340282346638528859811704183484516925440, float32 = real,
              Float32ToBytes = (\<lambda>v. replicate (4 * length v) 0),
              BytesToFloat32 = map (\<lambda>b. real (unat b))\<rparr>"

definition tableStorage :: Storage where
  "tableStorage =
     \<lparr>content = [bytes_of productQuantizerFlatCentroidsKey \<mapsto> [0, 2, 4, 8],
                  bytes_of productQuantizerCentroidDistsKey \<mapsto> [0, 4, 4, 0, 0, 16, 16, 0]],
      IsReadOnly = False\<rparr>"

section \<open>Loop rules\<close>

lemma forLoop_append:
  "forLoop (xs @ ys) body s =
     (case forLoop xs body s of Inl e \<Rightarrow> Inl e | Inr s' \<Rightarrow> forLoop ys body s')"
  by (induction xs arbitrary: s) (auto split: sum.splits)

lemma forLoop_cong:
  "(\<And>x t. x \<in> set xs \<Longrightarrow> f x t = g x t) \<Longrightarrow> forLoop xs f s = forLoop xs g s"
  by (induction xs arbitrary: s) (auto split: sum.splits)

lemma forLoop_upt_rule:
  assumes init: "I 0 s"
    and step: "\<And>i t. i < n \<Longrightarrow> I i t \<Longrightarrow> \<exists>t'. body i t = Inr t' \<and> I (Suc i) t'"
  shows "\<exists>t. forLoop [0..<n] body s = Inr t \<and> I n t"
proof -
  have "m \<le> n \<Longrightarrow> \<exists>t. forLoop [0..<m] body s = Inr t \<and> I m t" for m
  proof (induction m)
    case 0
    then show ?case using init by simp
  next
    case (Suc m)
    then obtain t where t: "forLoop [0..<m] body s = Inr t" "I m t" by auto
    from step [of m t] Suc.prems t obtain t' where "body m t = Inr t'" "I (Suc m) t'" by auto
    with t show ?case by (simp add: forLoop_append)
  qed
  then show ?thesis by simp
qed

lemma forLoop_nth:
  "forLoop xs body s = forLoop [0..<length xs] (\<lambda>i. body (xs ! i)) s"
proof (induction xs arbitrary: s rule: rev_induct)
  case Nil
  then show ?case by simp
next
  case (snoc x xs)
  have "forLoop [0..<length xs] (\<lambda>i. body ((xs @ [x]) ! i)) t =
        forLoop [0..<length xs] (\<lambda>i. body (xs ! i)) t" for t
    by (rule forLoop_cong) (simp add: nth_append)
  with snoc show ?case by (simp add: forLoop_append split: sum.splits)
qed

lemma forLoop_Inr_rule:
  assumes "forLoop xs body s = Inr t" and "P s"
    and "\<And>x u u'. x \<in> set xs \<Longrightarrow> P u \<Longrightarrow> body x u = Inr u' \<Longrightarrow> P u'"
  shows "P t"
  using assms
proof (induction xs arbitrary: s)
  case Nil
  then show ?case by simp
next
  case (Cons x xs)
  from Cons.prems(1) obtain u where u: "body x s = Inr u" "forLoop xs body u = Inr t"
    by (auto split: sum.splits)
  have "P u" using Cons.prems(3) [of x s u] Cons.prems(2) u(1) by simp
  show ?case
  proof (rule Cons.IH [OF u(2) \<open>P u\<close>])
    fix y v v' assume "y \<in> set xs" "P v" "body y v = Inr v'"
    then show "P v'" using Cons.prems(3) [of y v v'] by simp
  qed
qed

section \<open>Binary encoding\<close>

lemma bit_set_iff:
  "bit ((w :: u64) OR 2 ^ m) n \<longleftrightarrow> bit w n \<or> (n = m \<and> n < 64)"
  by (auto simp: bit_simps)

lemma bq_encode_loop:
  fixes thr v :: "'f::ord list"
  assumes len: "length v \<le> length thr"
  shows "\<exists>ws. forLoop [0..<length v]
            (\<lambda>i encoded.
               case index thr i of
                 Inl e \<Rightarrow> Inl e
               | Inr t \<Rightarrow>
                   if v ! i > t
                   then store encoded (i div 64) (encoded ! (i div 64) OR push_bit (i mod 64) 1)
                   else Inr encoded)
            (replicate ((length v + 63) div 64) (0::u64)) = Inr ws
          \<and> length ws = (length v + 63) div 64
          \<and> (\<forall>w < length ws. \<forall>b < 64. bit (ws ! w) b \<longleftrightarrow> (64 * w + b < length v \<and> thr ! (64 * w + b) < v ! (64 * w + b)))"
proof -
  let ?W = "(length v + 63) div 64"
  let ?I = "\<lambda>i (ws :: u64 list). length ws = ?W \<and> (\<forall>w < ?W. \<forall>b < 64. bit (ws ! w) b \<longleftrightarrow> (64 * w + b < i \<and> thr ! (64 * w + b) < v ! (64 * w + b)))"
  have "\<exists>t. forLoop [0..<length v] (\<lambda>i encoded.
               case index thr i of
                 Inl e \<Rightarrow> Inl e
               | Inr t \<Rightarrow>
                   if v ! i > t
                   then store encoded (i div 64) (encoded ! (i div 64) OR push_bit (i mod 64) 1)
                   else Inr encoded) (replicate ?W (0::u64)) = Inr t \<and> ?I (length v) t"
  proof (rule forLoop_upt_rule [where I = ?I])
    show "?I 0 (replicate ?W 0)" by simp
  next
    fix i t assume i: "i < length v" and inv: "?I i t"
    have iW: "i div 64 < ?W" using i by auto
    have eq: "64 * w + b = i \<longleftrightarrow> w = i div 64 \<and> b = i mod 64" if "b < 64" for w b
      using that by auto
    have thr: "index thr i = Inr (thr ! i)" using i len by (simp add: index_def)
    have lt: "length t = ?W" using inv by simp
    have bits: "bit (t ! w) b \<longleftrightarrow> (64 * w + b < i \<and> thr ! (64 * w + b) < v ! (64 * w + b))"
      if "w < ?W" "b < 64" for w b using inv that by blast
    show "\<exists>t'. (case index thr i of
                 Inl e \<Rightarrow> Inl e
               | Inr ta \<Rightarrow>
                   if v ! i > ta
                   then store t (i div 64) (t ! (i div 64) OR push_bit (i mod 64) 1)
                   else Inr t) = Inr t' \<and> ?I (Suc i) t'"
    proof (cases "thr ! i < v ! i")
      case True
      let ?t' = "t[i div 64 := t ! (i div 64) OR push_bit (i mod 64) 1]"
      have "bit (?t' ! w) b \<longleftrightarrow> (64 * w + b < Suc i \<and> thr ! (64 * w + b) < v ! (64 * w + b))"
        if wb: "w < ?W" "b < 64" for w b
      proof (cases "w = i div 64")
        case w: True
        have "bit (?t' ! w) b \<longleftrightarrow> bit (t ! w) b \<or> b = i mod 64"
          using w wb lt iW by (simp add: bit_set_iff)
        also have "\<dots> \<longleftrightarrow> (64 * w + b < i \<and> thr ! (64 * w + b) < v ! (64 * w + b)) \<or> 64 * w + b = i"
          using bits [OF wb] eq [OF wb(2), of w] w by simp
        also have "\<dots> \<longleftrightarrow> (64 * w + b < Suc i \<and> thr ! (64 * w + b) < v ! (64 * w + b))"
          using True by (auto simp: less_Suc_eq)
        finally show ?thesis .
      next
        case w: False
        have ne: "64 * w + b \<noteq> i" using eq [OF wb(2), of w] w by simp
        have "bit (?t' ! w) b \<longleftrightarrow> bit (t ! w) b" using w by simp
        also have "\<dots> \<longleftrightarrow> (64 * w + b < i \<and> thr ! (64 * w + b) < v ! (64 * w + b))"
          using bits [OF wb] .
        finally show ?thesis using ne by (auto simp: less_Suc_eq)
      qed
      then have "?I (Suc i) ?t'" using lt by simp
      moreover have "(case index thr i of
                 Inl e \<Rightarrow> Inl e
               | Inr ta \<Rightarrow>
                   if v ! i > ta
                   then store t (i div 64) (t ! (i div 64) OR push_bit (i mod 64) 1)
                   else Inr t) = Inr ?t'"
        using True thr lt iW by (simp add: store_def)
      ultimately show ?thesis by blast
    next
      case False
      have "bit (t ! w) b \<longleftrightarrow> (64 * w + b < Suc i \<and> thr ! (64 * w + b) < v ! (64 * w + b))"
        if wb: "w < ?W" "b < 64" for w b
        using bits [OF wb] False by (auto simp: less_Suc_eq)
      then have "?I (Suc i) t" using lt by simp
      moreover have "(case index thr i of
                 Inl e \<Rightarrow> Inl e
               | Inr ta \<Rightarrow>
                   if v ! i > ta
                   then store t (i div 64) (t ! (i div 64) OR push_bit (i mod 64) 1)
                   else Inr t) = Inr t"
        using False thr by simp
      ultimately show ?thesis by blast
    qed
  qed
  then show ?thesis by auto
qed

lemma div64_eqI: "D = 64 * q + r \<Longrightarrow> r < 64 \<Longrightarrow> D div (64::nat) = q \<and> D mod 64 = r"
  by simp

lemma numUint64s_eq:
  "(if D mod 64 \<noteq> 0 then D div 64 + 1 else D div 64) = (D + 63) div (64::nat)"
proof -
  define q r where "q = D div 64" and "r = D mod 64"
  have D: "D = 64 * q + r" and r: "r < 64" by (simp_all add: q_def r_def)
  show ?thesis
  proof (cases "r = 0")
    case True
    have "D + 63 = 64 * q + 63" using D True by simp
    from div64_eqI [OF this] have "(D + 63) div 64 = q" by simp
    with True show ?thesis by (simp add: q_def r_def)
  next
    case False
    have "D + 63 = 64 * (q + 1) + (r - 1)" using D False by simp
    from div64_eqI [OF this] r have "(D + 63) div 64 = q + 1" by simp
    with False show ?thesis by (simp add: q_def r_def)
  qed
qed

text \<open>
  Claim C3. With a threshold of the vector's length \<open>D\<close>, \<^verbatim>\<open>binaryQuantizer.encode\<close>
  returns \<open>\<lceil>D/64\<rceil> = (D + 63) div 64\<close> words; for every \<open>i < D\<close>, bit \<open>i mod 64\<close> of word
  \<open>i div 64\<close> is set exactly when \<open>vector[i] > threshold[i]\<close>; the padding bits of the last
  word are clear. Without a threshold the result is \<^verbatim>\<open>nil\<close>.
\<close>

theorem bq_encode_bits:
  fixes bq :: "'f::ord binaryQuantizer"
  shows "(threshold bq = Some thr \<and> length thr = length v \<longrightarrow>
           (\<exists>ws. bq_encode bq v = Inr (Some ws) \<and> length ws = (length v + 63) div 64 \<and>
                 (\<forall>i < length v. bit (ws ! (i div 64)) (i mod 64) \<longleftrightarrow> v ! i > thr ! i) \<and>
                 (\<forall>w < length ws. \<forall>b < 64. length v \<le> 64 * w + b \<longrightarrow> \<not> bit (ws ! w) b)))
       \<and> (threshold bq = None \<longrightarrow> bq_encode bq v = Inr None)"
proof (intro conjI impI)
  assume "threshold bq = None"
  then show "bq_encode bq v = Inr None" by (simp add: bq_encode_def)
next
  assume a: "threshold bq = Some thr \<and> length thr = length v"
  then have "length v \<le> length thr" by simp
  from bq_encode_loop [OF this] obtain ws where
    run: "forLoop [0..<length v]
            (\<lambda>i encoded.
               case index thr i of
                 Inl e \<Rightarrow> Inl e
               | Inr t \<Rightarrow>
                   if v ! i > t
                   then store encoded (i div 64) (encoded ! (i div 64) OR push_bit (i mod 64) 1)
                   else Inr encoded)
            (replicate ((length v + 63) div 64) (0::u64)) = Inr ws"
    and len: "length ws = (length v + 63) div 64"
    and bits: "\<And>w b. w < length ws \<Longrightarrow> b < 64 \<Longrightarrow>
                 bit (ws ! w) b \<longleftrightarrow> (64 * w + b < length v \<and> thr ! (64 * w + b) < v ! (64 * w + b))"
    by blast
  have enc: "bq_encode bq v = Inr (Some ws)"
  proof -
    have "(if 0 < length v mod 64 then length v div 64 + 1 else length v div 64)
            = (length v + 63) div 64"
      using numUint64s_eq [of "length v"] by simp
    then show ?thesis unfolding bq_encode_def Let_def using a run by simp
  qed
  have "bit (ws ! (i div 64)) (i mod 64) \<longleftrightarrow> v ! i > thr ! i" if "i < length v" for i
  proof -
    have "i div 64 < length ws" using that len by auto
    from bits [OF this, of "i mod 64"] that show ?thesis by simp
  qed
  moreover have "\<not> bit (ws ! w) b" if "w < length ws" "b < 64" "length v \<le> 64 * w + b" for w b
    using bits [OF that(1,2)] that(3) by simp
  ultimately show "\<exists>ws. bq_encode bq v = Inr (Some ws) \<and> length ws = (length v + 63) div 64 \<and>
                 (\<forall>i < length v. bit (ws ! (i div 64)) (i mod 64) \<longleftrightarrow> v ! i > thr ! i) \<and>
                 (\<forall>w < length ws. \<forall>b < 64. length v \<le> 64 * w + b \<longrightarrow> \<not> bit (ws ! w) b)"
    using enc len by blast
qed

theorem bq_encode_bits_witness:
  "(\<exists>ws. bq_encode (bqOf (Some [1/2, 1/2, 1/2, 1/2]) 0 []) [1/10, 6/10, 7/10, 4/10] = Inr (Some ws)
         \<and> length ws = 1 \<and> \<not> bit (ws ! 0) 0 \<and> bit (ws ! 0) 1 \<and> bit (ws ! 0) 2 \<and> \<not> bit (ws ! 0) 3
         \<and> \<not> bit (ws ! 0) 4)
   \<and> bq_encode (bqOf None 0 []) [1/10, 6/10, 7/10, 4/10] = Inr None"
proof -
  let ?bq = "bqOf (Some [1/2, 1/2, 1/2, 1/2]) 0 []"
  let ?thr = "[1/2, 1/2, 1/2, 1/2] :: real list"
  let ?v = "[1/10, 6/10, 7/10, 4/10] :: real list"
  have h: "threshold ?bq = Some ?thr \<and> length ?thr = length ?v" by (simp add: bqOf_def)
  have "\<exists>ws. bq_encode ?bq ?v = Inr (Some ws) \<and> length ws = (length ?v + 63) div 64 \<and>
      (\<forall>i < length ?v. bit (ws ! (i div 64)) (i mod 64) \<longleftrightarrow> ?v ! i > ?thr ! i) \<and>
      (\<forall>w < length ws. \<forall>b < 64. length ?v \<le> 64 * w + b \<longrightarrow> \<not> bit (ws ! w) b)"
    by (rule mp [OF conjunct1 [OF bq_encode_bits [of ?bq ?thr ?v]] h])
  then obtain ws where
    ws: "bq_encode ?bq ?v = Inr (Some ws)" "length ws = (length ?v + 63) div 64"
      "\<forall>i < length ?v. bit (ws ! (i div 64)) (i mod 64) \<longleftrightarrow> ?v ! i > ?thr ! i"
      "\<forall>w < length ws. \<forall>b < 64. length ?v \<le> 64 * w + b \<longrightarrow> \<not> bit (ws ! w) b"
    by (elim exE conjE)
  have l: "length ws = 1" using ws(2) by simp
  have b0: "\<not> bit (ws ! 0) 0" using ws(3) [rule_format, of 0] by simp
  have b1: "bit (ws ! 0) 1" using ws(3) [rule_format, of 1] by simp
  have b2: "bit (ws ! 0) 2" using ws(3) [rule_format, of 2] by simp
  have b3: "\<not> bit (ws ! 0) 3" using ws(3) [rule_format, of 3] by simp
  have b4: "\<not> bit (ws ! 0) 4" using ws(4) [rule_format, of 0 4] l by simp
  have "threshold (bqOf None 0 []) = None" by (simp add: bqOf_def)
  then have n: "bq_encode (bqOf None 0 []) ?v = Inr None"
    by (rule mp [OF conjunct2 [OF bq_encode_bits [of "bqOf None 0 []" ?thr ?v]]])
  show ?thesis
    by (rule conjI [OF exI [of _ ws] n]) (intro conjI ws(1) l b0 b1 b2 b3 b4)
qed

section \<open>Construction\<close>

lemma GetFloatDistanceFn_supported:
  "supportedName name \<Longrightarrow>
     \<exists>fn. (GetFloatDistanceFn (if name = DistanceCosine then DistanceEuclidean else name)
             :: error + ('f::{zero,one,plus,minus,times} list \<Rightarrow> 'f list \<Rightarrow> 'f)) = Inr fn"
  by (auto simp: supportedName_def GetFloatDistanceFn_def)

text \<open>
  Claim C8, as the code has it. For \<^verbatim>\<open>NumSubVectors \<noteq> 0\<close> the constructor checks, in this
  order, the divisibility, the name, the number of centroids. It fails with
  \<open>InvalidGeometry\<close> exactly when \<open>D mod M \<noteq> 0\<close>, or the name is supported and \<open>K > 256\<close>;
  with \<open>UnsupportedDistance\<close> exactly when \<open>D mod M = 0\<close> and the name is none of
  euclidean, cosine, dot; it succeeds in every other case, \<open>D = 0\<close> included.
\<close>

theorem newProductQuantizer_errors:
  fixes E :: "'f::{zero,one,plus,minus,times} float32_env"
  assumes M: "NumSubVectors ps \<noteq> 0"
  shows "(newProductQuantizer E st name ps D = Inl InvalidGeometry \<longleftrightarrow>
            D mod NumSubVectors ps \<noteq> 0 \<or> (supportedName name \<and> NumCentroids ps > 256))
       \<and> (newProductQuantizer E st name ps D = Inl UnsupportedDistance \<longleftrightarrow>
            D mod NumSubVectors ps = 0 \<and> \<not> supportedName name)
       \<and> (\<not> isl (newProductQuantizer E st name ps D) \<longleftrightarrow>
            D mod NumSubVectors ps = 0 \<and> supportedName name \<and> NumCentroids ps \<le> 256)"
proof (cases "supportedName name")
  case True
  from GetFloatDistanceFn_supported [OF this, where 'f = 'f] obtain fn :: "'f list \<Rightarrow> 'f list \<Rightarrow> 'f"
    where fn: "GetFloatDistanceFn (if name = DistanceCosine then DistanceEuclidean else name) = Inr fn"
    by blast
  have n: "\<not> (name \<noteq> DistanceEuclidean \<and> name \<noteq> DistanceCosine \<and> name \<noteq> DistanceDot)"
    using True by (simp add: supportedName_def)
  show ?thesis using M True n fn
    by (auto simp: newProductQuantizer_def Let_def)
next
  case False
  then have n: "name \<noteq> DistanceEuclidean \<and> name \<noteq> DistanceCosine \<and> name \<noteq> DistanceDot"
    by (simp add: supportedName_def)
  show ?thesis using M False n
    by (auto simp: newProductQuantizer_def)
qed

theorem newProductQuantizer_errors_witness:
  "newProductQuantizer realEnv emptyStorage ''dot''
      \<lparr>NumCentroids = 300, NumSubVectors = 2, TriggerThreshold = 0\<rparr> 4 = Inl InvalidGeometry
   \<and> newProductQuantizer realEnv emptyStorage ''manhattan''
      \<lparr>NumCentroids = 300, NumSubVectors = 2, TriggerThreshold = 0\<rparr> 4 = Inl UnsupportedDistance
   \<and> \<not> isl (newProductQuantizer realEnv emptyStorage ''cosine''
      \<lparr>NumCentroids = 256, NumSubVectors = 2, TriggerThreshold = 0\<rparr> 4)"
proof -
  have s: "supportedName ''dot''" "\<not> supportedName ''manhattan''" "supportedName ''cosine''"
    by (simp_all add: supportedName_def DistanceEuclidean_def DistanceCosine_def DistanceDot_def)
  show ?thesis
    using newProductQuantizer_errors [of "\<lparr>NumCentroids = 300, NumSubVectors = 2, TriggerThreshold = 0\<rparr>" realEnv emptyStorage "''dot''" 4]
      newProductQuantizer_errors [of "\<lparr>NumCentroids = 300, NumSubVectors = 2, TriggerThreshold = 0\<rparr>" realEnv emptyStorage "''manhattan''" 4]
      newProductQuantizer_errors [of "\<lparr>NumCentroids = 256, NumSubVectors = 2, TriggerThreshold = 0\<rparr>" realEnv emptyStorage "''cosine''" 4] s
    by simp
qed

text \<open>
  Claim C8 as stated fails: zero dimensions are accepted (\<open>0 mod 2 = 0\<close>); an unknown name
  with \<open>D = 10\<close>, \<open>M = 3\<close> is reported as a geometry error, the first check; an unknown name
  with \<open>K = 300\<close> and a valid divisibility is reported as an unsupported distance, the
  earlier check.
\<close>

theorem newProductQuantizer_zero_dimensions_counterexample:
  "\<not> isl (newProductQuantizer realEnv emptyStorage ''euclidean''
            \<lparr>NumCentroids = 2, NumSubVectors = 2, TriggerThreshold = 0\<rparr> 0)
   \<and> newProductQuantizer realEnv emptyStorage ''manhattan''
        \<lparr>NumCentroids = 2, NumSubVectors = 3, TriggerThreshold = 0\<rparr> 10 = Inl InvalidGeometry
   \<and> newProductQuantizer realEnv emptyStorage ''manhattan''
        \<lparr>NumCentroids = 300, NumSubVectors = 2, TriggerThreshold = 0\<rparr> 4 = Inl UnsupportedDistance"
  by (simp add: newProductQuantizer_def GetFloatDistanceFn_def DistanceEuclidean_def
        DistanceCosine_def DistanceDot_def)

text \<open>
  Claim C9. The constructor called with the name cosine returns what it returns for the
  name euclidean, the same error included. For \<open>M \<noteq> 0\<close>, \<open>D mod M = 0\<close> and \<open>K \<le> 256\<close> both
  calls succeed with one and the same quantizer: its kernel is the Euclidean one, its
  recorded name is euclidean, and \<^verbatim>\<open>encode\<close>, \<^verbatim>\<open>Fit\<close>, \<^verbatim>\<open>DistanceFromFloat\<close> and
  \<^verbatim>\<open>DistanceFromPoint\<close> of the two are equal as functions of all their inputs.
\<close>

theorem cosine_is_euclidean:
  fixes E :: "'f::{zero,one,plus,minus,times,ord} float32_env"
  shows "newProductQuantizer E st DistanceCosine ps D = newProductQuantizer E st DistanceEuclidean ps D
       \<and> (NumSubVectors ps \<noteq> 0 \<and> D mod NumSubVectors ps = 0 \<and> NumCentroids ps \<le> 256 \<longrightarrow>
            (\<exists>pqc pqe.
               newProductQuantizer E st DistanceCosine ps D = Inr pqc
               \<and> newProductQuantizer E st DistanceEuclidean ps D = Inr pqe
               \<and> pqc = pqe
               \<and> distFn pqc = euclidean \<and> distFnName pqc = DistanceEuclidean
               \<and> subVectorLen pqc = D div NumSubVectors ps \<and> params pqc = ps
               \<and> pq_encode E pqc = pq_encode E pqe
               \<and> (\<lambda>kmeansFit. pq_Fit kmeansFit pqc) = (\<lambda>kmeansFit. pq_Fit kmeansFit pqe)
               \<and> pq_DistanceFromFloat E pqc = pq_DistanceFromFloat E pqe
               \<and> pq_DistanceFromPoint E pqc = pq_DistanceFromPoint E pqe))"
proof (intro conjI impI)
  show eq: "newProductQuantizer E st DistanceCosine ps D = newProductQuantizer E st DistanceEuclidean ps D"
    by (simp add: newProductQuantizer_def GetFloatDistanceFn_def Let_def)
  assume a: "NumSubVectors ps \<noteq> 0 \<and> D mod NumSubVectors ps = 0 \<and> NumCentroids ps \<le> 256"
  let ?pq = "\<lparr>params = ps, distFn = euclidean, originalVectorLen = D,
              subVectorLen = D div NumSubVectors ps, distFnName = DistanceEuclidean,
              items = NewItemCache st,
              centroidDists =
                (case storage_Get st (bytes_of productQuantizerCentroidDistsKey) of
                   None \<Rightarrow> [] | Some buff \<Rightarrow> BytesToFloat32 E buff),
              flatCentroids =
                (case storage_Get st (bytes_of productQuantizerFlatCentroidsKey) of
                   None \<Rightarrow> [] | Some buff \<Rightarrow> BytesToFloat32 E buff),
              storage = st\<rparr> :: 'f productQuantizer"
  have c: "newProductQuantizer E st DistanceCosine ps D = Inr ?pq"
    using a by (simp add: newProductQuantizer_def GetFloatDistanceFn_def Let_def
        DistanceEuclidean_def DistanceCosine_def DistanceDot_def)
  have e: "newProductQuantizer E st DistanceEuclidean ps D = Inr ?pq"
    using c eq by simp
  show "\<exists>pqc pqe.
               newProductQuantizer E st DistanceCosine ps D = Inr pqc
               \<and> newProductQuantizer E st DistanceEuclidean ps D = Inr pqe
               \<and> pqc = pqe
               \<and> distFn pqc = euclidean \<and> distFnName pqc = DistanceEuclidean
               \<and> subVectorLen pqc = D div NumSubVectors ps \<and> params pqc = ps
               \<and> pq_encode E pqc = pq_encode E pqe
               \<and> (\<lambda>kmeansFit. pq_Fit kmeansFit pqc) = (\<lambda>kmeansFit. pq_Fit kmeansFit pqe)
               \<and> pq_DistanceFromFloat E pqc = pq_DistanceFromFloat E pqe
               \<and> pq_DistanceFromPoint E pqc = pq_DistanceFromPoint E pqe"
    by (rule exI [of _ ?pq], rule exI [of _ ?pq]) (simp add: c e)
qed

text \<open>The constructor run with the name cosine on a store that holds the two tables
  (\<open>M = 2\<close>, \<open>K = 2\<close>, \<open>D = 2\<close>): the quantizer it returns is the one returned for the name
  euclidean, encodes \<open>[1, 7]\<close> by squared Euclidean distance and answers both distances
  from the tables.\<close>

theorem cosine_is_euclidean_witness:
  "(case newProductQuantizer byteEnv tableStorage DistanceCosine
           \<lparr>NumCentroids = 2, NumSubVectors = 2, TriggerThreshold = 0\<rparr> 2 of
      Inl e \<Rightarrow> False
    | Inr pq \<Rightarrow>
        newProductQuantizer byteEnv tableStorage DistanceEuclidean
           \<lparr>NumCentroids = 2, NumSubVectors = 2, TriggerThreshold = 0\<rparr> 2 = Inr pq
        \<and> distFn pq = euclidean
        \<and> flatCentroids pq = [0, 2, 4, 8]
        \<and> pq_encode byteEnv pq [1, 7] = Inr [0, 1]
        \<and> pq_Fit (KMeans_Fit byteEnv) pq = Inr pq
        \<and> (case pq_DistanceFromFloat byteEnv pq [1, 5] of
              Inl e \<Rightarrow> False
            | Inr f \<Rightarrow> f (PQPoint (pqPoint 1 [] [0, 1] False)) = Inr 10)
        \<and> pq_DistanceFromPoint byteEnv pq (PQPoint (pqPoint 1 [] [0, 1] False))
             (PQPoint (pqPoint 2 [] [1, 0] False)) = Inr 20)"
proof -
  let ?ps = "\<lparr>NumCentroids = 2, NumSubVectors = 2, TriggerThreshold = 0\<rparr>"
  let ?c = "newProductQuantizer byteEnv tableStorage DistanceCosine ?ps 2"
  have h: "NumSubVectors ?ps \<noteq> 0 \<and> 2 mod NumSubVectors ?ps = 0 \<and> NumCentroids ?ps \<le> 256"
    by simp
  from cosine_is_euclidean [where E = byteEnv and st = tableStorage and ps = ?ps and D = 2,
      THEN conjunct2, THEN mp, OF h]
  obtain pq where c: "?c = Inr pq"
    and e: "newProductQuantizer byteEnv tableStorage DistanceEuclidean ?ps 2 = Inr pq"
    and k: "distFn pq = euclidean"
    by blast
  have "map_sum id
          (\<lambda>pq. (flatCentroids pq, pq_encode byteEnv pq [1, 7],
                 map_sum id flatCentroids (pq_Fit (KMeans_Fit byteEnv) pq),
                 map_sum id (\<lambda>f. f (PQPoint (pqPoint 1 [] [0, 1] False)))
                   (pq_DistanceFromFloat byteEnv pq [1, 5]),
                 pq_DistanceFromPoint byteEnv pq (PQPoint (pqPoint 1 [] [0, 1] False))
                   (PQPoint (pqPoint 2 [] [1, 0] False)))) ?c
        = Inr ([0, 2, 4, 8], Inr [0, 1], Inr [0, 2, 4, 8], Inr (Inr 10), Inr 20)"
    by code_simp
  then have v: "flatCentroids pq = [0, 2, 4, 8]" "pq_encode byteEnv pq [1, 7] = Inr [0, 1]"
    "map_sum id (\<lambda>f. f (PQPoint (pqPoint 1 [] [0, 1] False)))
                   (pq_DistanceFromFloat byteEnv pq [1, 5]) = Inr (Inr 10)"
    "pq_DistanceFromPoint byteEnv pq (PQPoint (pqPoint 1 [] [0, 1] False))
                   (PQPoint (pqPoint 2 [] [1, 0] False)) = Inr 20"
    unfolding c by simp_all
  from v(1) have fit: "pq_Fit (KMeans_Fit byteEnv) pq = Inr pq" by (simp add: pq_Fit_def)
  from v(3) have d: "(case pq_DistanceFromFloat byteEnv pq [1, 5] of
              Inl e \<Rightarrow> False
            | Inr f \<Rightarrow> f (PQPoint (pqPoint 1 [] [0, 1] False)) = Inr 10)"
    by (cases "pq_DistanceFromFloat byteEnv pq [1, 5]") simp_all
  show ?thesis unfolding c sum.case using e k v(1,2,4) fit d by (intro conjI)
qed

section \<open>Persistence of a binary point\<close>

text \<open>
  Claim C10. For a point with a non-empty \<^verbatim>\<open>BinaryVector\<close>, \<^verbatim>\<open>WriteTo\<close> is the single
  \<^verbatim>\<open>Put\<close> of the packed bits under the \<^verbatim>\<open>'q'\<close> key: when it succeeds the store differs
  at that key only, and the \<^verbatim>\<open>'v'\<close> key holds what it held. Whenever a successful
  \<^verbatim>\<open>WriteTo\<close> changes the \<^verbatim>\<open>'v'\<close> key, the point has no binary vector and a non-empty
  raw vector.
\<close>

theorem bqp_WriteTo_frame:
  "(BinaryVector bqp \<noteq> [] \<longrightarrow>
      bqp_WriteTo E bqp i st = storage_Put st (NodeKey i tag_q) (EdgeListToBytes (BinaryVector bqp))
      \<and> (\<forall>st'. bqp_WriteTo E bqp i st = Inr st' \<longrightarrow>
            content st' = (content st)(NodeKey i tag_q \<mapsto> EdgeListToBytes (BinaryVector bqp))
            \<and> content st' (NodeKey i tag_v) = content st (NodeKey i tag_v)))
   \<and> (\<forall>st'. bqp_WriteTo E bqp i st = Inr st'
              \<and> content st' (NodeKey i tag_v) \<noteq> content st (NodeKey i tag_v) \<longrightarrow>
            BinaryVector bqp = [] \<and> Vector_bq bqp \<noteq> []
            \<and> content st' = (content st)(NodeKey i tag_v \<mapsto> Float32ToBytes E (Vector_bq bqp)))"
  by (auto simp: bqp_WriteTo_def storage_Put_def NodeKey_def tag_q_def tag_v_def split: if_splits)

lemma EdgeListToBytes_6: "EdgeListToBytes [6] = [6, 0, 0, 0, 0, 0, 0, 0]"
  by (simp add: EdgeListToBytes_def)

lemma NodeKey_tags_differ: "NodeKey i tag_q \<noteq> NodeKey j tag_v"
  by (simp add: NodeKey_def tag_q_def tag_v_def)

theorem bqp_WriteTo_frame_witness:
  "BinaryVector (bqPoint 7 [1, 0, 0, 0] [6] True) \<noteq> []
   \<and> bqp_WriteTo realEnv (bqPoint 7 [1, 0, 0, 0] [6] True) 7 storedVector
       = storage_Put storedVector (NodeKey 7 tag_q) (EdgeListToBytes [6])
   \<and> (case bqp_WriteTo realEnv (bqPoint 7 [1, 0, 0, 0] [6] True) 7 storedVector of
        Inl e \<Rightarrow> False
      | Inr st' \<Rightarrow> content st' (NodeKey 7 tag_v) = Some [0, 0, 128, 63]
                 \<and> content st' (NodeKey 7 tag_q) = Some [6, 0, 0, 0, 0, 0, 0, 0])
   \<and> (case bqp_WriteTo realEnv (bqPoint 7 [1, 0, 0, 0] [] True) 7 storedVector of
        Inl e \<Rightarrow> False
      | Inr st' \<Rightarrow> content st' (NodeKey 7 tag_v) = Some (replicate 16 0)
                 \<and> content st' (NodeKey 7 tag_q) = None)"
proof -
  let ?p = "bqPoint 7 [1, 0, 0, 0] [6] True"
  let ?kq = "NodeKey 7 tag_q" and ?kv = "NodeKey 7 tag_v"
  have b: "BinaryVector ?p \<noteq> []" by (simp add: bqPoint_def)
  have bv: "BinaryVector ?p = [6]" by (simp add: bqPoint_def)
  have c0: "content storedVector = [?kv \<mapsto> [0, 0, 128, 63]]" "\<not> IsReadOnly storedVector"
    by (simp_all add: storedVector_def)
  have w1: "bqp_WriteTo realEnv ?p 7 storedVector
              = storage_Put storedVector ?kq (EdgeListToBytes (BinaryVector ?p))"
    by (rule bqp_WriteTo_frame [where bqp = ?p and E = realEnv and i = 7 and st = storedVector,
          THEN conjunct1, THEN mp, OF b, THEN conjunct1])
  have put: "storage_Put storedVector ?kq (EdgeListToBytes [6])
               = Inr (storedVector\<lparr>content := [?kv \<mapsto> [0, 0, 128, 63], ?kq \<mapsto> [6, 0, 0, 0, 0, 0, 0, 0]]\<rparr>)"
    unfolding storage_Put_def EdgeListToBytes_6 using c0 by simp
  have w2: "bqp_WriteTo realEnv (bqPoint 7 [1, 0, 0, 0] [] True) 7 storedVector
             = Inr (storedVector\<lparr>content := [?kv \<mapsto> replicate 16 0]\<rparr>)"
    unfolding bqp_WriteTo_def storage_Put_def using c0 by (simp add: bqPoint_def realEnv_def)
  have ne: "?kq \<noteq> ?kv" "?kv \<noteq> ?kq" using NodeKey_tags_differ [of 7 7] by auto
  have r1: "(case bqp_WriteTo realEnv ?p 7 storedVector of
        Inl e \<Rightarrow> False
      | Inr st' \<Rightarrow> content st' ?kv = Some [0, 0, 128, 63]
                 \<and> content st' ?kq = Some [6, 0, 0, 0, 0, 0, 0, 0])"
    unfolding w1 bv put using ne by simp
  have r2: "(case bqp_WriteTo realEnv (bqPoint 7 [1, 0, 0, 0] [] True) 7 storedVector of
        Inl e \<Rightarrow> False
      | Inr st' \<Rightarrow> content st' ?kv = Some (replicate 16 0) \<and> content st' ?kq = None)"
    unfolding w2 using ne by simp
  show ?thesis
    using b w1 [unfolded bv] r1 r2 by (intro conjI)
qed

section \<open>The gate of Fit\<close>

lemma length_copyInto:
  "start + n \<le> length dst \<Longrightarrow> length (copyInto dst start n src) = length dst"
  by (simp add: copyInto_def)

lemma subslice_Inr:
  "subslice xs lo hi = Inr w \<Longrightarrow> lo \<le> hi \<and> hi \<le> length xs \<and> length w = hi - lo"
  by (auto simp: subslice_def split: if_splits)

lemma updateFlatCentroids_length:
  assumes "updateFlatCentroids pq cs i flat = Inr flat'"
  shows "length flat' = length flat"
proof (rule forLoop_Inr_rule [OF assms [unfolded updateFlatCentroids_def],
      where P = "\<lambda>fl. length fl = length flat"])
  show "length flat = length flat" by simp
next
  fix j u u'
  assume u: "length u = length flat"
    and step: "(case flatCentroidSlice pq i j of
                 (start, end) \<Rightarrow>
                   (case subslice u start end of
                      Inl e \<Rightarrow> Inl e
                    | Inr window \<Rightarrow>
                        (case index cs j of
                           Inl e \<Rightarrow> Inl e
                         | Inr c \<Rightarrow> Inr (copyInto u start (length window) c)))) = Inr u'"
  obtain start e where se: "flatCentroidSlice pq i j = (start, e)" by (cases "flatCentroidSlice pq i j")
  from step se obtain window c where w: "subslice u start e = Inr window"
    and u': "u' = copyInto u start (length window) c"
    by (auto split: sum.splits)
  from subslice_Inr [OF w] have "start + length window \<le> length u" by simp
  from length_copyInto [OF this] u u' show "length u' = length flat" by simp
qed

lemma fitSubvector_flat_length:
  assumes "fitSubvector km pq vs i (pts, flat, dists) = Inr (pts', flat', dists')"
  shows "length flat' = length flat"
  using assms updateFlatCentroids_length
  by (auto simp: fitSubvector_def Let_def split: sum.splits)

lemma pq_Fit_runs_flat_length:
  assumes fit: "pq_Fit km pq = Inr pq'"
    and run: "flatCentroids pq = []" "\<not> Count (items pq) < TriggerThreshold (params pq)"
  shows "length (flatCentroids pq') =
           NumSubVectors (params pq) * NumCentroids (params pq) * subVectorLen pq"
proof -
  let ?n = "NumSubVectors (params pq) * NumCentroids (params pq) * subVectorLen pq"
  from fit run obtain pts flat dists where
    loop: "forLoop [0..<NumSubVectors (params pq)]
             (fitSubvector km pq (map (\<lambda>(i, point). Vector point) (resident (items pq))))
             (map (\<lambda>(i, point).
                       (i, point\<lparr>CentroidIds := replicate (NumSubVectors (params pq)) 0,
                                 isDirty := True\<rparr>))
                  (resident (items pq)),
              replicate ?n 0,
              replicate (NumSubVectors (params pq) * NumCentroids (params pq)
                               * NumCentroids (params pq)) 0) = Inr (pts, flat, dists)"
    and pq': "pq' = pq\<lparr>items := (items pq)\<lparr>resident := pts\<rparr>,
                      flatCentroids := flat, centroidDists := dists\<rparr>"
    by (auto simp: pq_Fit_def Let_def split: sum.splits)
  have "case (pts, flat, dists) of (p, f, d) \<Rightarrow> length f = ?n"
  proof (rule forLoop_Inr_rule [OF loop, where P = "\<lambda>(p, f, d). length f = ?n"])
    show "case (map (\<lambda>(i, point).
                       (i, point\<lparr>CentroidIds := replicate (NumSubVectors (params pq)) 0,
                                 isDirty := True\<rparr>))
                  (resident (items pq)),
              replicate ?n (0::'a),
              replicate (NumSubVectors (params pq) * NumCentroids (params pq)
                               * NumCentroids (params pq)) (0::'a)) of (p, f, d) \<Rightarrow> length f = ?n"
      by simp
  next
    fix x and u u' :: "(u64 \<times> 'a productQuantizedPoint) list \<times> 'a list \<times> 'a list"
    assume "case u of (p, f, d) \<Rightarrow> length f = ?n"
      and "fitSubvector km pq (map (\<lambda>(i, point). Vector point) (resident (items pq))) x u = Inr u'"
    then show "case u' of (p, f, d) \<Rightarrow> length f = ?n"
      using fitSubvector_flat_length by (cases u; cases u') fastforce
  qed
  then show ?thesis using pq' by simp
qed

lemma pq_Fit_gate:
  "flatCentroids pq \<noteq> [] \<or> Count (items pq) < TriggerThreshold (params pq) \<Longrightarrow>
     pq_Fit km pq = Inr pq"
  by (auto simp: pq_Fit_def)

lemma bq_Fit_gate:
  "threshold bq \<noteq> None \<or> Count (items_bq bq) < TriggerThreshold_bq (params_bq bq) \<Longrightarrow>
     bq_Fit E bq = Inr bq"
  by (auto simp: bq_Fit_def)

lemma pq_Fit_twice:
  assumes fit: "pq_Fit km pq = Inr pq'"
    and geom: "0 < NumSubVectors (params pq) * NumCentroids (params pq) * subVectorLen pq"
  shows "pq_Fit km' pq' = Inr pq'"
proof (cases "flatCentroids pq \<noteq> [] \<or> Count (items pq) < TriggerThreshold (params pq)")
  case True
  from pq_Fit_gate [OF True] fit have "pq' = pq" by simp
  with pq_Fit_gate [OF True] show ?thesis by simp
next
  case False
  then have "length (flatCentroids pq') =
           NumSubVectors (params pq) * NumCentroids (params pq) * subVectorLen pq"
    using pq_Fit_runs_flat_length [OF fit] by simp
  with geom have "flatCentroids pq' \<noteq> []" by auto
  then show ?thesis by (simp add: pq_Fit_gate)
qed

lemma sumVectors_Some:
  assumes "sumVectors (p # ps) = Inr (acc, n)"
  shows "acc \<noteq> None"
proof -
  let ?body = "(\<lambda>(i, point) (acc, count).
          let sum0 = (case acc of
                        None \<Rightarrow> replicate (length (Vector_bq point)) 0
                      | Some s \<Rightarrow> s)
          in
          (case forLoop [0..<length (Vector_bq point)]
                  (\<lambda>i s. case index s i of
                            Inl e \<Rightarrow> Inl e
                          | Inr a \<Rightarrow> store s i (a + Vector_bq point ! i))
                  sum0 of
             Inl e \<Rightarrow> Inl e
           | Inr sum1 \<Rightarrow> Inr (Some sum1, count + 1)))"
  from assms obtain u where u: "?body p (None, 0) = Inr u" "forLoop ps ?body u = Inr (acc, n)"
    by (auto simp: sumVectors_def split: sum.splits)
  have "case u of (a, c) \<Rightarrow> a \<noteq> None"
    using u(1) by (cases p) (auto simp: Let_def split: sum.splits)
  have "case (acc, n) of (a, c) \<Rightarrow> a \<noteq> None"
  proof (rule forLoop_Inr_rule [OF u(2), where P = "\<lambda>(a, c). a \<noteq> None"])
    show "case u of (a, c) \<Rightarrow> a \<noteq> None" by fact
  next
    fix x and v v' :: "'a list option \<times> nat"
    assume "?body x v = Inr v'"
    then show "case v' of (a, c) \<Rightarrow> a \<noteq> None"
      by (cases x; cases v) (auto simp: Let_def split: sum.splits)
  qed
  then show ?thesis by simp
qed

lemma bq_Fit_twice:
  assumes fit: "bq_Fit E bq = Inr bq'"
  shows "bq_Fit E bq' = Inr bq'"
proof (cases "threshold bq \<noteq> None \<or> Count (items_bq bq) < TriggerThreshold_bq (params_bq bq)")
  case True
  from bq_Fit_gate [OF True] fit have "bq' = bq" by simp
  with bq_Fit_gate [OF True] show ?thesis by simp
next
  case False
  from fit False obtain acc count points where
    sv: "sumVectors (resident (items_bq bq)) = Inr (acc, count)"
    and bq': "bq' = bq\<lparr>threshold := map_option (map (\<lambda>s. s / float32 E count)) acc,
                       items_bq := (items_bq bq)\<lparr>resident := points\<rparr>\<rparr>"
    and ep: "encodePoints (bq\<lparr>threshold := map_option (map (\<lambda>s. s / float32 E count)) acc\<rparr>)
               (resident (items_bq bq)) = Inr points"
    by (auto simp: bq_Fit_def Let_def split: sum.splits)
  show ?thesis
  proof (cases "resident (items_bq bq)")
    case Nil
    with sv ep have "acc = None" "points = []"
      by (simp_all add: sumVectors_def encodePoints_def)
    with bq' False Nil have "bq' = bq" by simp
    with fit show ?thesis by simp
  next
    case (Cons p ps)
    with sv sumVectors_Some have "acc \<noteq> None" by metis
    with bq' have "threshold bq' \<noteq> None" by simp
    then show ?thesis by (simp add: bq_Fit_gate)
  qed
qed

text \<open>
  Claim C6. \<^verbatim>\<open>Fit\<close> of either quantizer returns \<^verbatim>\<open>nil\<close> and leaves the whole quantizer
  (tables, threshold, every point) as it is when the centroid table is non-empty or the
  threshold is set, or when the count is below the trigger. A second \<^verbatim>\<open>Fit\<close> after a
  first one that returned \<^verbatim>\<open>nil\<close> changes nothing: for the product quantizer when the
  table size \<open>M * K * d_sub\<close> is positive (the first call then left a non-empty table or
  was itself gated), for the binary quantizer always.
\<close>

theorem Fit_gated_idempotent:
  "(flatCentroids pq \<noteq> [] \<or> Count (items pq) < TriggerThreshold (params pq) \<longrightarrow>
      pq_Fit km pq = Inr pq)
   \<and> (threshold bq \<noteq> None \<or> Count (items_bq bq) < TriggerThreshold_bq (params_bq bq) \<longrightarrow>
      bq_Fit E bq = Inr bq)
   \<and> (pq_Fit km pq = Inr pq' \<and>
        0 < NumSubVectors (params pq) * NumCentroids (params pq) * subVectorLen pq \<longrightarrow>
      pq_Fit km' pq' = Inr pq')
   \<and> (bq_Fit E bq = Inr bq' \<longrightarrow> bq_Fit E bq' = Inr bq')"
  using pq_Fit_gate [of pq km] bq_Fit_gate [of bq E] pq_Fit_twice [of km pq pq' km']
    bq_Fit_twice [of E bq bq']
  by blast

theorem Fit_gated_idempotent_witness:
  "pq_Fit (KMeans_Fit realEnv) (pqOf ''euclidean'' euclidean 2 2 1 0 twoPoints [1, 2, 3, 4] [0, 1, 1, 0, 0, 1, 1, 0])
     = Inr (pqOf ''euclidean'' euclidean 2 2 1 0 twoPoints [1, 2, 3, 4] [0, 1, 1, 0, 0, 1, 1, 0])
   \<and> pq_Fit (KMeans_Fit realEnv) (pqOf ''euclidean'' euclidean 2 2 1 3 twoPoints [] [])
     = Inr (pqOf ''euclidean'' euclidean 2 2 1 3 twoPoints [] [])
   \<and> bq_Fit realEnv (bqOf (Some [1, 1, 1, 1]) 0 twoBinaryPoints) = Inr (bqOf (Some [1, 1, 1, 1]) 0 twoBinaryPoints)
   \<and> bq_Fit realEnv (bqOf None 3 twoBinaryPoints) = Inr (bqOf None 3 twoBinaryPoints)
   \<and> (case pq_Fit (KMeans_Fit realEnv) (pqOf ''euclidean'' euclidean 2 2 1 2 twoPoints [] []) of
        Inl e \<Rightarrow> False
      | Inr pq' \<Rightarrow> flatCentroids pq' = [0, 2, 4, 8] \<and> pq_Fit (KMeans_Fit realEnv) pq' = Inr pq')
   \<and> (case bq_Fit realEnv (bqOf None 2 twoBinaryPoints) of
        Inl e \<Rightarrow> False
      | Inr bq' \<Rightarrow> threshold bq' = Some [1, 1, 1, 1] \<and> bq_Fit realEnv bq' = Inr bq')"
proof -
  let ?km = "KMeans_Fit realEnv"
  let ?pqF = "pqOf ''euclidean'' euclidean 2 2 1 0 twoPoints [1, 2, 3, 4] [0, 1, 1, 0, 0, 1, 1, 0]"
  let ?pqT = "pqOf ''euclidean'' euclidean 2 2 1 3 twoPoints [] []"
  let ?pq = "pqOf ''euclidean'' euclidean 2 2 1 2 twoPoints [] []"
  let ?bqF = "bqOf (Some [1, 1, 1, 1]) 0 twoBinaryPoints"
  let ?bqT = "bqOf None 3 twoBinaryPoints"
  let ?bq = "bqOf None 2 twoBinaryPoints"
  have g1: "flatCentroids ?pqF \<noteq> [] \<or> Count (items ?pqF) < TriggerThreshold (params ?pqF)"
    by (simp add: pqOf_def)
  have g2: "flatCentroids ?pqT \<noteq> [] \<or> Count (items ?pqT) < TriggerThreshold (params ?pqT)"
    by (simp add: pqOf_def Count_def twoPoints_def)
  have g3: "threshold ?bqF \<noteq> None \<or> Count (items_bq ?bqF) < TriggerThreshold_bq (params_bq ?bqF)"
    by (simp add: bqOf_def)
  have g4: "threshold ?bqT \<noteq> None \<or> Count (items_bq ?bqT) < TriggerThreshold_bq (params_bq ?bqT)"
    by (simp add: bqOf_def Count_def twoBinaryPoints_def)
  have c1: "pq_Fit ?km ?pqF = Inr ?pqF"
    by (rule Fit_gated_idempotent [where pq = ?pqF and km = ?km, THEN conjunct1, THEN mp, OF g1])
  have c2: "pq_Fit ?km ?pqT = Inr ?pqT"
    by (rule Fit_gated_idempotent [where pq = ?pqT and km = ?km, THEN conjunct1, THEN mp, OF g2])
  have c3: "bq_Fit realEnv ?bqF = Inr ?bqF"
    by (rule Fit_gated_idempotent [where bq = ?bqF and E = realEnv,
          THEN conjunct2, THEN conjunct1, THEN mp, OF g3])
  have c4: "bq_Fit realEnv ?bqT = Inr ?bqT"
    by (rule Fit_gated_idempotent [where bq = ?bqT and E = realEnv,
          THEN conjunct2, THEN conjunct1, THEN mp, OF g4])
  have "map_sum id flatCentroids (pq_Fit ?km ?pq) = Inr [0, 2, 4, 8]" by code_simp
  then obtain pq' where pq': "pq_Fit ?km ?pq = Inr pq'" "flatCentroids pq' = [0, 2, 4, 8]"
    by (cases "pq_Fit ?km ?pq") auto
  have geom: "0 < NumSubVectors (params ?pq) * NumCentroids (params ?pq) * subVectorLen ?pq"
    by (simp add: pqOf_def)
  have c5: "pq_Fit ?km pq' = Inr pq'"
    by (rule Fit_gated_idempotent [where pq = ?pq and km = ?km and pq' = pq' and km' = ?km,
          THEN conjunct2, THEN conjunct2, THEN conjunct1, THEN mp, OF conjI [OF pq'(1) geom]])
  have "map_sum id threshold (bq_Fit realEnv ?bq) = Inr (Some [1, 1, 1, 1])" by code_simp
  then obtain bq' where bq': "bq_Fit realEnv ?bq = Inr bq'" "threshold bq' = Some [1, 1, 1, 1]"
    by (cases "bq_Fit realEnv ?bq") auto
  have c6: "bq_Fit realEnv bq' = Inr bq'"
    by (rule Fit_gated_idempotent [where bq = ?bq and E = realEnv and bq' = bq',
          THEN conjunct2, THEN conjunct2, THEN conjunct2, THEN mp, OF bq'(1)])
  have c5': "(case pq_Fit ?km ?pq of
        Inl e \<Rightarrow> False
      | Inr pq' \<Rightarrow> flatCentroids pq' = [0, 2, 4, 8] \<and> pq_Fit ?km pq' = Inr pq')"
    unfolding pq'(1) using pq'(2) c5 by simp
  have c6': "(case bq_Fit realEnv ?bq of
        Inl e \<Rightarrow> False
      | Inr bq' \<Rightarrow> threshold bq' = Some [1, 1, 1, 1] \<and> bq_Fit realEnv bq' = Inr bq')"
    unfolding bq'(1) using bq'(2) c6 by simp
  show ?thesis
    by (intro conjI c1 c2 c3 c4 c5' c6')
qed

section \<open>Distance from a float vector\<close>

text \<open>
  Claim C7, as the code has it. Before \<^verbatim>\<open>Fit\<close> (empty centroid table) the closure of
  \<^verbatim>\<open>DistanceFromFloat(x)\<close> returns, for every product-quantized point \<open>y\<close>, the kernel's
  value on \<open>x\<close> and \<open>y\<close>'s vector, whether or not that vector is empty; it returns the
  constant \<^verbatim>\<open>math.MaxFloat32\<close> for a point of another type, and only then.
\<close>

theorem pq_DistanceFromFloat_unfit:
  "flatCentroids pq = [] \<Longrightarrow>
     (case pq_DistanceFromFloat E pq x of
        Inl e \<Rightarrow> False
      | Inr f \<Rightarrow> f (PQPoint y) = Inr (distFn pq x (Vector y)) \<and> f (BQPoint z) = Inr (MaxFloat32 E))"
  by (simp add: pq_DistanceFromFloat_def)

theorem pq_DistanceFromFloat_unfit_witness:
  "flatCentroids (pqOf ''euclidean'' euclidean 2 2 1 3 twoPoints [] []) = []
   \<and> (case pq_DistanceFromFloat realEnv (pqOf ''euclidean'' euclidean 2 2 1 3 twoPoints [] []) [1, 2] of
        Inl e \<Rightarrow> False
      | Inr f \<Rightarrow> f (PQPoint (pqPoint 1 [4, 6] [] False)) = Inr 25
                \<and> f (BQPoint (bqPoint 2 [4, 6] [] False)) = Inr 340282346638528859811704183484516925440)"
proof -
  let ?pq = "pqOf ''euclidean'' euclidean 2 2 1 3 twoPoints [] []"
  have u: "flatCentroids ?pq = []" by (simp add: pqOf_def)
  have d: "distFn ?pq [1, 2] (Vector (pqPoint 1 [4, 6] [] False)) = 25"
    by (simp add: pqOf_def pqPoint_def euclidean_def)
  show ?thesis
    using pq_DistanceFromFloat_unfit [OF u, where E = realEnv and x = "[1, 2]"
        and y = "pqPoint 1 [4, 6] [] False" and z = "bqPoint 2 [4, 6] [] False"] u d
    by (simp add: realEnv_def split: sum.splits)
qed

text \<open>
  Claim C7 as stated fails on its second half: for a product-quantized point without a
  raw vector the closure does not return a sentinel, it calls the kernel on the empty
  vector. With the empty query the Euclidean kernel's loop runs zero times and the result
  is \<open>0\<close>, which is not \<^verbatim>\<open>math.MaxFloat32\<close> (and that constant is finite, not \<open>+\<infinity>\<close>).
\<close>

theorem pq_DistanceFromFloat_no_vector_counterexample:
  "(case pq_DistanceFromFloat realEnv (pqOf ''euclidean'' euclidean 2 2 1 3 twoPoints [] []) [] of
      Inl e \<Rightarrow> Inl e
    | Inr f \<Rightarrow> f (PQPoint (pqPoint 9 [] [] False))) = Inr 0
   \<and> (0::real) \<noteq> MaxFloat32 realEnv"
  by (simp add: pq_DistanceFromFloat_def pqOf_def pqPoint_def euclidean_def realEnv_def)

section \<open>The lookup table of the asymmetric distance\<close>

lemma row_index_less: "i < M \<Longrightarrow> j < K \<Longrightarrow> i * K + j < M * (K::nat)"
proof -
  assume i: "i < M" and j: "j < K"
  have "i * K + j < Suc i * K" using j by simp
  also have "\<dots> \<le> M * K" using i by (intro mult_le_mono1) simp
  finally show ?thesis .
qed

lemma row_index_inj:
  "j < K \<Longrightarrow> j' < K \<Longrightarrow> i * K + j = i' * K + j' \<Longrightarrow> i = i' \<and> j = (j'::nat)"
proof -
  assume j: "j < K" and j': "j' < K" and eq: "i * K + j = i' * K + j'"
  have "(i * K + j) div K = i" "(i' * K + j') div K = i'" using j j' by simp_all
  with eq have "i = i'" by simp
  with eq show ?thesis by simp
qed

lemma subvector_slice:
  "M * d \<le> length x \<Longrightarrow> i < M \<Longrightarrow> subslice x (i * d) ((i + 1) * d) = Inr (take d (drop (i * d) x))"
proof -
  assume len: "M * d \<le> length x" and i: "i < M"
  have "(i + 1) * d \<le> M * d" using i by (intro mult_le_mono1) simp
  with len have "(i + 1) * d \<le> length x" by simp
  moreover have "(i + 1) * d - i * d = d" by simp
  moreover have "i * d \<le> (i + 1) * d" by simp
  ultimately show ?thesis unfolding subslice_def by simp
qed

lemma centroid_slice:
  assumes len: "length flat = M * K * d" and i: "i < M" and j: "j < K"
  shows "subslice flat (i * K * d + j * d) (i * K * d + j * d + d)
           = Inr (take d (drop (i * K * d + j * d) flat))"
proof -
  have s: "i * K * d + j * d = (i * K + j) * d" by (simp add: add_mult_distrib)
  have "Suc (i * K + j) \<le> M * K" using row_index_less [OF i j] by simp
  then have "Suc (i * K + j) * d \<le> (M * K) * d" by (rule mult_le_mono1)
  then have "i * K * d + j * d + d \<le> length flat" using len s by simp
  then show ?thesis unfolding subslice_def by simp
qed

lemma forLoop_dists_row:
  fixes pq :: "'f::zero productQuantizer"
  assumes len: "length (flatCentroids pq) =
                  NumSubVectors (params pq) * NumCentroids (params pq) * subVectorLen pq"
    and i: "i < NumSubVectors (params pq)"
    and t: "length t = NumSubVectors (params pq) * NumCentroids (params pq)"
  shows "\<exists>t'. forLoop [0..<NumCentroids (params pq)]
                (\<lambda>j dists.
                   case flatCentroidSlice pq i j of (start, end) \<Rightarrow>
                     (case subslice (flatCentroids pq) start end of
                        Inl e \<Rightarrow> Inl e
                      | Inr centroid \<Rightarrow>
                          store dists (i * NumCentroids (params pq) + j)
                            (distFn pq sv centroid)))
                t = Inr t'
          \<and> length t' = length t
          \<and> (\<forall>c < NumCentroids (params pq).
                t' ! (i * NumCentroids (params pq) + c) = distFn pq sv (centroidAt pq i c))
          \<and> (\<forall>n < length t. n < i * NumCentroids (params pq) \<longrightarrow> t' ! n = t ! n)"
proof -
  let ?K = "NumCentroids (params pq)" and ?M = "NumSubVectors (params pq)"
  let ?d = "subVectorLen pq"
  let ?J = "\<lambda>j (u :: 'f list). length u = length t
              \<and> (\<forall>c < j. u ! (i * ?K + c) = distFn pq sv (centroidAt pq i c))
              \<and> (\<forall>n < length t. n < i * ?K \<longrightarrow> u ! n = t ! n)"
  have "\<exists>t'. forLoop [0..<?K]
                (\<lambda>j dists.
                   case flatCentroidSlice pq i j of (start, end) \<Rightarrow>
                     (case subslice (flatCentroids pq) start end of
                        Inl e \<Rightarrow> Inl e
                      | Inr centroid \<Rightarrow>
                          store dists (i * ?K + j) (distFn pq sv centroid)))
                t = Inr t' \<and> ?J ?K t'"
  proof (rule forLoop_upt_rule [where I = ?J])
    show "?J 0 t" by simp
  next
    fix j u assume j: "j < ?K" and inv: "?J j u"
    have sl: "subslice (flatCentroids pq) (i * ?K * ?d + j * ?d) (i * ?K * ?d + j * ?d + ?d)
                = Inr (centroidAt pq i j)"
      unfolding centroidAt_def by (rule centroid_slice [OF len i j])
    have lt: "i * ?K + j < length u" using row_index_less [OF i j] inv t by simp
    let ?u' = "u[i * ?K + j := distFn pq sv (centroidAt pq i j)]"
    have step: "(case flatCentroidSlice pq i j of (start, end) \<Rightarrow>
                     (case subslice (flatCentroids pq) start end of
                        Inl e \<Rightarrow> Inl e
                      | Inr centroid \<Rightarrow>
                          store u (i * ?K + j) (distFn pq sv centroid))) = Inr ?u'"
      using sl lt by (simp add: flatCentroidSlice_def Let_def store_def)
    have "?J (Suc j) ?u'"
    proof (intro conjI allI impI)
      show "length ?u' = length t" using inv by simp
    next
      fix c assume c: "c < Suc j"
      show "?u' ! (i * ?K + c) = distFn pq sv (centroidAt pq i c)"
      proof (cases "c = j")
        case True
        then show ?thesis using lt by simp
      next
        case False
        with c have "c < j" by simp
        with inv have "u ! (i * ?K + c) = distFn pq sv (centroidAt pq i c)" by blast
        with False show ?thesis by simp
      qed
    next
      fix n assume n: "n < length t" "n < i * ?K"
      then have "n \<noteq> i * ?K + j" by simp
      with inv n show "?u' ! n = t ! n" by simp
    qed
    with step show "\<exists>t'. (case flatCentroidSlice pq i j of (start, end) \<Rightarrow>
                     (case subslice (flatCentroids pq) start end of
                        Inl e \<Rightarrow> Inl e
                      | Inr centroid \<Rightarrow>
                          store u (i * ?K + j) (distFn pq sv centroid))) = Inr t' \<and> ?J (Suc j) t'"
      by blast
  qed
  then show ?thesis by blast
qed

lemma pq_DistanceFromFloat_dists_table:
  fixes pq :: "'f::zero productQuantizer"
  assumes len: "length (flatCentroids pq) =
                  NumSubVectors (params pq) * NumCentroids (params pq) * subVectorLen pq"
    and x: "NumSubVectors (params pq) * subVectorLen pq \<le> length x"
  shows "\<exists>L. pq_DistanceFromFloat_dists pq x = Inr L
          \<and> length L = NumSubVectors (params pq) * NumCentroids (params pq)
          \<and> (\<forall>m < NumSubVectors (params pq). \<forall>c < NumCentroids (params pq).
                L ! (m * NumCentroids (params pq) + c)
                  = distFn pq (subvectorAt pq x m) (centroidAt pq m c))"
proof -
  let ?K = "NumCentroids (params pq)" and ?M = "NumSubVectors (params pq)"
  let ?d = "subVectorLen pq"
  let ?I = "\<lambda>i (u :: 'f list). length u = ?M * ?K
              \<and> (\<forall>m < i. \<forall>c < ?K. u ! (m * ?K + c) = distFn pq (subvectorAt pq x m) (centroidAt pq m c))"
  have "\<exists>L. pq_DistanceFromFloat_dists pq x = Inr L \<and> ?I ?M L"
    unfolding pq_DistanceFromFloat_dists_def
  proof (rule forLoop_upt_rule [where I = ?I])
    show "?I 0 (replicate (?M * ?K) 0)" by simp
  next
    fix i u assume i: "i < ?M" and inv: "?I i u"
    have sl: "subslice x (i * ?d) ((i + 1) * ?d) = Inr (subvectorAt pq x i)"
      unfolding subvectorAt_def by (rule subvector_slice [OF x i])
    from inv have lu: "length u = ?M * ?K" by simp
    from forLoop_dists_row [OF len i lu, of "subvectorAt pq x i"] obtain u' where
      run: "forLoop [0..<?K]
                (\<lambda>j dists.
                   case flatCentroidSlice pq i j of (start, end) \<Rightarrow>
                     (case subslice (flatCentroids pq) start end of
                        Inl e \<Rightarrow> Inl e
                      | Inr centroid \<Rightarrow>
                          store dists (i * ?K + j) (distFn pq (subvectorAt pq x i) centroid)))
                u = Inr u'"
      and lu': "length u' = length u"
      and new: "\<And>c. c < ?K \<Longrightarrow> u' ! (i * ?K + c) = distFn pq (subvectorAt pq x i) (centroidAt pq i c)"
      and old: "\<And>n. n < length u \<Longrightarrow> n < i * ?K \<Longrightarrow> u' ! n = u ! n"
      by blast
    have "?I (Suc i) u'"
    proof (intro conjI allI impI)
      show "length u' = ?M * ?K" using lu lu' by simp
    next
      fix m c assume m: "m < Suc i" and c: "c < ?K"
      show "u' ! (m * ?K + c) = distFn pq (subvectorAt pq x m) (centroidAt pq m c)"
      proof (cases "m = i")
        case True
        then show ?thesis using new [OF c] by simp
      next
        case False
        with m have mi: "m < i" by simp
        have "m * ?K + c < i * ?K" using row_index_less [OF mi c] by simp
        moreover have "m * ?K + c < length u"
          using row_index_less [of m ?M c ?K] mi i c lu by simp
        ultimately have "u' ! (m * ?K + c) = u ! (m * ?K + c)" using old by simp
        with inv mi c show ?thesis by simp
      qed
    qed
    with run sl show "\<exists>t'. (case subslice x (i * ?d) ((i + 1) * ?d) of
            Inl e \<Rightarrow> Inl e
          | Inr subvector \<Rightarrow>
              forLoop [0..<?K]
                (\<lambda>j dists.
                   case flatCentroidSlice pq i j of (start, end) \<Rightarrow>
                     (case subslice (flatCentroids pq) start end of
                        Inl e \<Rightarrow> Inl e
                      | Inr centroid \<Rightarrow>
                          store dists (i * ?K + j)
                            (distFn pq subvector centroid)))
                u) = Inr t' \<and> ?I (Suc i) t'"
      by simp
  qed
  then show ?thesis by blast
qed

lemma forLoop_lookup_sum:
  fixes L :: "'f::{zero,plus} list"
  assumes ids: "M \<le> length ids" and bound: "\<forall>m < M. unat (ids ! m) < K"
    and L: "length L = M * K"
  shows "forLoop [0..<M]
           (\<lambda>i dist.
              case index ids i of
                Inl e \<Rightarrow> Inl e
              | Inr (c :: u8) \<Rightarrow>
                  (case index L (i * K + unat c) of
                     Inl e \<Rightarrow> Inl e
                   | Inr d \<Rightarrow> Inr (dist + d)))
           0
         = Inr (foldl (+) 0 (map (\<lambda>m. L ! (m * K + unat (ids ! m))) [0..<M]))"
proof -
  let ?g = "\<lambda>m. L ! (m * K + unat (ids ! m))"
  let ?I = "\<lambda>i (dist :: 'f). dist = foldl (+) 0 (map ?g [0..<i])"
  have "\<exists>t. forLoop [0..<M]
           (\<lambda>i dist.
              case index ids i of
                Inl e \<Rightarrow> Inl e
              | Inr (c :: u8) \<Rightarrow>
                  (case index L (i * K + unat c) of
                     Inl e \<Rightarrow> Inl e
                   | Inr d \<Rightarrow> Inr (dist + d)))
           0 = Inr t \<and> ?I M t"
  proof (rule forLoop_upt_rule [where I = ?I])
    show "?I 0 0" by simp
  next
    fix i dist assume i: "i < M" and inv: "?I i dist"
    have c: "index ids i = Inr (ids ! i)" using i ids by (simp add: index_def)
    have "i * K + unat (ids ! i) < length L"
      using row_index_less [OF i] bound i L by simp
    then have d: "index L (i * K + unat (ids ! i)) = Inr (?g i)" by (simp add: index_def)
    show "\<exists>t'. (case index ids i of
                Inl e \<Rightarrow> Inl e
              | Inr (c :: u8) \<Rightarrow>
                  (case index L (i * K + unat c) of
                     Inl e \<Rightarrow> Inl e
                   | Inr d \<Rightarrow> Inr (dist + d))) = Inr t' \<and> ?I (Suc i) t'"
      using c d inv by simp
  qed
  then show ?thesis by auto
qed

text \<open>
  Claim C1. For a fitted quantizer (non-empty centroid table of \<open>M * K * d_sub\<close> entries) and
  a vector of \<open>M * d_sub\<close> entries, \<^verbatim>\<open>DistanceFromFloat\<close> fills a table \<open>L\<close> of \<open>M * K\<close>
  entries with \<open>L[m * K + c]\<close> the kernel's value on the \<open>m\<close>-th subvector of \<open>x\<close> and centroid
  \<open>c\<close> of subvector \<open>m\<close>, and the closure it returns, applied to a product-quantized point
  whose code has \<open>M\<close> entries below \<open>K\<close>, returns the sum of \<open>L[m * K + code[m]]\<close> over
  \<open>m = 0, \<dots>, M - 1\<close>, added in this order starting from zero.
\<close>

theorem pq_DistanceFromFloat_fit:
  fixes pq :: "'f::{zero,plus} productQuantizer"
  assumes fit: "flatCentroids pq \<noteq> []"
    and len: "length (flatCentroids pq) =
                NumSubVectors (params pq) * NumCentroids (params pq) * subVectorLen pq"
    and x: "length x = NumSubVectors (params pq) * subVectorLen pq"
    and ids: "length (CentroidIds y) = NumSubVectors (params pq)"
    and bound: "\<forall>m < NumSubVectors (params pq). unat (CentroidIds y ! m) < NumCentroids (params pq)"
  shows "\<exists>L f. pq_DistanceFromFloat_dists pq x = Inr L
           \<and> length L = NumSubVectors (params pq) * NumCentroids (params pq)
           \<and> (\<forall>m < NumSubVectors (params pq). \<forall>c < NumCentroids (params pq).
                 L ! (m * NumCentroids (params pq) + c)
                   = distFn pq (subvectorAt pq x m) (centroidAt pq m c))
           \<and> pq_DistanceFromFloat E pq x = Inr f
           \<and> f (PQPoint y)
               = Inr (foldl (+) 0
                        (map (\<lambda>m. L ! (m * NumCentroids (params pq) + unat (CentroidIds y ! m)))
                           [0..<NumSubVectors (params pq)]))"
proof -
  from pq_DistanceFromFloat_dists_table [OF len, of x] x obtain L where
    L: "pq_DistanceFromFloat_dists pq x = Inr L"
      "length L = NumSubVectors (params pq) * NumCentroids (params pq)"
      "\<forall>m < NumSubVectors (params pq). \<forall>c < NumCentroids (params pq).
                 L ! (m * NumCentroids (params pq) + c)
                   = distFn pq (subvectorAt pq x m) (centroidAt pq m c)"
    by auto
  have ids': "NumSubVectors (params pq) \<le> length (CentroidIds y)" using ids by simp
  note sum = forLoop_lookup_sum [OF ids' bound L(2)]
  show ?thesis
    using fit L sum by (simp add: pq_DistanceFromFloat_def)
qed

lemma fittedPQ_simps:
  "flatCentroids (fittedPQ name fn flat) = flat"
  "NumSubVectors (params (fittedPQ name fn flat)) = 2"
  "NumCentroids (params (fittedPQ name fn flat)) = 2"
  "subVectorLen (fittedPQ name fn flat) = 1"
  "distFn (fittedPQ name fn flat) = fn"
  by (simp_all add: fittedPQ_def pqOf_def)

theorem pq_DistanceFromFloat_fit_witness:
  "flatCentroids (fittedPQ ''euclidean'' euclidean [0, 2, 4, 8]) \<noteq> []
   \<and> pq_DistanceFromFloat_dists (fittedPQ ''euclidean'' euclidean [0, 2, 4, 8]) [1, 5] = Inr [1, 1, 1, 9]
   \<and> (case pq_DistanceFromFloat realEnv (fittedPQ ''euclidean'' euclidean [0, 2, 4, 8]) [1, 5] of
        Inl e \<Rightarrow> False
      | Inr f \<Rightarrow> f (PQPoint (pqPoint 1 [] [0, 1] False)) = Inr 10)"
proof -
  let ?pq = "fittedPQ ''euclidean'' euclidean [0, 2, 4, 8]"
  let ?x = "[1, 5] :: real list"
  let ?y = "pqPoint 1 [] [0, 1] False"
  have fit: "flatCentroids ?pq \<noteq> []" by (simp add: fittedPQ_simps)
  have len: "length (flatCentroids ?pq) =
                NumSubVectors (params ?pq) * NumCentroids (params ?pq) * subVectorLen ?pq"
    by (simp add: fittedPQ_simps)
  have x: "length ?x = NumSubVectors (params ?pq) * subVectorLen ?pq" by (simp add: fittedPQ_simps)
  have ids: "length (CentroidIds ?y) = NumSubVectors (params ?pq)"
    by (simp add: fittedPQ_simps pqPoint_def)
  have bound: "\<forall>m < NumSubVectors (params ?pq). unat (CentroidIds ?y ! m) < NumCentroids (params ?pq)"
    by (simp add: fittedPQ_simps pqPoint_def less_Suc_eq numeral_2_eq_2)
  from pq_DistanceFromFloat_fit [OF fit len x ids bound, of realEnv]
  obtain L f where L: "pq_DistanceFromFloat_dists ?pq ?x = Inr L"
    and f: "pq_DistanceFromFloat realEnv ?pq ?x = Inr f"
    and s: "f (PQPoint ?y)
               = Inr (foldl (+) 0
                        (map (\<lambda>m. L ! (m * NumCentroids (params ?pq) + unat (CentroidIds ?y ! m)))
                           [0..<NumSubVectors (params ?pq)]))"
    by blast
  have eval: "pq_DistanceFromFloat_dists ?pq ?x = Inr [1, 1, 1, 9]" by code_simp
  with L have L': "L = [1, 1, 1, 9]" by simp
  have "[0..<2] = [0, Suc 0]" by (simp add: upt_rec)
  then have "f (PQPoint ?y) = Inr 10"
    using s by (simp add: L' fittedPQ_simps pqPoint_def)
  then have "(case pq_DistanceFromFloat realEnv ?pq ?x of
        Inl e \<Rightarrow> False
      | Inr f \<Rightarrow> f (PQPoint ?y) = Inr 10)"
    unfolding f by simp
  with fit eval show ?thesis by (intro conjI)
qed

section \<open>Product encoding\<close>

lemma closestCentroid_argmin:
  fixes pq :: "'f::linorder productQuantizer"
  assumes len: "length (flatCentroids pq) =
                  NumSubVectors (params pq) * NumCentroids (params pq) * subVectorLen pq"
    and i: "i < NumSubVectors (params pq)"
  shows "\<exists>d c. closestCentroid E pq i sv = Inr (d, c)
           \<and> (if \<exists>j < NumCentroids (params pq). distFn pq sv (centroidAt pq i j) < MaxFloat32 E
              then c < NumCentroids (params pq)
                   \<and> (\<forall>j < NumCentroids (params pq).
                         distFn pq sv (centroidAt pq i c) \<le> distFn pq sv (centroidAt pq i j))
                   \<and> (\<forall>j < c. distFn pq sv (centroidAt pq i c) < distFn pq sv (centroidAt pq i j))
              else c = 0)"
proof -
  let ?K = "NumCentroids (params pq)" and ?d = "subVectorLen pq"
  let ?ds = "\<lambda>j. distFn pq sv (centroidAt pq i j)"
  let ?J = "\<lambda>j (s :: 'f \<times> nat).
              (if \<exists>k < j. ?ds k < MaxFloat32 E
               then snd s < j \<and> fst s = ?ds (snd s) \<and> fst s < MaxFloat32 E
                    \<and> (\<forall>k < j. fst s \<le> ?ds k) \<and> (\<forall>k < snd s. fst s < ?ds k)
               else snd s = 0 \<and> fst s = MaxFloat32 E)"
  have "\<exists>t. closestCentroid E pq i sv = Inr t \<and> ?J ?K t"
    unfolding closestCentroid_def
  proof (rule forLoop_upt_rule [where I = ?J])
    show "?J 0 (MaxFloat32 E, 0)" by simp
  next
    fix j and s :: "'f \<times> nat"
    assume j: "j < ?K" and inv: "?J j s"
    obtain d c where s: "s = (d, c)" by (cases s)
    have sl: "subslice (flatCentroids pq) (i * ?K * ?d + j * ?d) (i * ?K * ?d + j * ?d + ?d)
                = Inr (centroidAt pq i j)"
      unfolding centroidAt_def by (rule centroid_slice [OF len i j])
    let ?s' = "if ?ds j < d then (?ds j, j) else (d, c)"
    have step: "(case s of (closestCentroidDistance, closestCentroidId) \<Rightarrow>
          case flatCentroidSlice pq i j of (sliceStart, sliceEnd) \<Rightarrow>
            (case subslice (flatCentroids pq) sliceStart sliceEnd of
               Inl e \<Rightarrow> Inl e
             | Inr centroid \<Rightarrow>
                 let dist = distFn pq sv centroid in
                 if dist < closestCentroidDistance then Inr (dist, j)
                 else Inr (closestCentroidDistance, closestCentroidId))) = Inr ?s'"
      using sl by (simp add: s flatCentroidSlice_def Let_def)
    have "?J (Suc j) ?s'"
    proof (cases "\<exists>k < j. ?ds k < MaxFloat32 E")
      case True
      with inv s have old: "c < j" "d = ?ds c" "d < MaxFloat32 E" "\<forall>k < j. d \<le> ?ds k"
        "\<forall>k < c. d < ?ds k" by auto
      have ex: "\<exists>k < Suc j. ?ds k < MaxFloat32 E" using True less_Suc_eq by blast
      show ?thesis
      proof (cases "?ds j < d")
        case lt: True
        have "\<forall>k < Suc j. ?ds j \<le> ?ds k" using old(4) lt by (auto simp: less_Suc_eq)
        moreover have "\<forall>k < j. ?ds j < ?ds k" using old(4) lt by auto
        moreover have "?ds j < MaxFloat32 E" using lt old(3) by simp
        ultimately show ?thesis using ex lt by simp
      next
        case ge: False
        then have "d \<le> ?ds j" by simp
        then have "\<forall>k < Suc j. d \<le> ?ds k" using old(4) by (auto simp: less_Suc_eq)
        then show ?thesis using ex ge old by (simp add: less_Suc_eq)
      qed
    next
      case False
      with inv s have old: "c = 0" "d = MaxFloat32 E" by auto
      have none: "\<forall>k < j. MaxFloat32 E \<le> ?ds k"
      proof (intro allI impI)
        fix k assume "k < j"
        with False have "\<not> ?ds k < MaxFloat32 E" by blast
        then show "MaxFloat32 E \<le> ?ds k" by simp
      qed
      show ?thesis
      proof (cases "?ds j < d")
        case lt: True
        have ex: "\<exists>k < Suc j. ?ds k < MaxFloat32 E" using lt old by auto
        have "\<forall>k < Suc j. ?ds j \<le> ?ds k" using none lt old by (auto simp: less_Suc_eq)
        moreover have "\<forall>k < j. ?ds j < ?ds k" using none lt old by auto
        ultimately show ?thesis using ex lt old by simp
      next
        case ge: False
        have "\<not> (\<exists>k < Suc j. ?ds k < MaxFloat32 E)"
          using False ge old by (auto simp: less_Suc_eq)
        then show ?thesis using ge old by simp
      qed
    qed
    with step show "\<exists>t'. (case s of (closestCentroidDistance, closestCentroidId) \<Rightarrow>
          case flatCentroidSlice pq i j of (sliceStart, sliceEnd) \<Rightarrow>
            (case subslice (flatCentroids pq) sliceStart sliceEnd of
               Inl e \<Rightarrow> Inl e
             | Inr centroid \<Rightarrow>
                 let dist = distFn pq sv centroid in
                 if dist < closestCentroidDistance then Inr (dist, j)
                 else Inr (closestCentroidDistance, closestCentroidId))) = Inr t' \<and> ?J (Suc j) t'"
      by blast
  qed
  then obtain t where t: "closestCentroid E pq i sv = Inr t" "?J ?K t" by blast
  obtain d c where dc: "t = (d, c)" by (cases t)
  show ?thesis
  proof (cases "\<exists>j < ?K. ?ds j < MaxFloat32 E")
    case True
    with t(2) dc have "c < ?K" "d = ?ds c" "\<forall>k < ?K. d \<le> ?ds k" "\<forall>k < c. d < ?ds k" by auto
    with True t(1) dc show ?thesis by auto
  next
    case False
    with t(2) dc have "c = 0" by auto
    with False t(1) dc show ?thesis by auto
  qed
qed

lemma closestTo_iff:
  "closestTo E pq x m c \<longleftrightarrow>
     (if \<exists>j < NumCentroids (params pq).
           distFn pq (subvectorAt pq x m) (centroidAt pq m j) < MaxFloat32 E
      then c < NumCentroids (params pq)
           \<and> (\<forall>j < NumCentroids (params pq).
                 distFn pq (subvectorAt pq x m) (centroidAt pq m c)
                   \<le> distFn pq (subvectorAt pq x m) (centroidAt pq m j))
           \<and> (\<forall>j < c. distFn pq (subvectorAt pq x m) (centroidAt pq m c)
                          < distFn pq (subvectorAt pq x m) (centroidAt pq m j))
      else c = 0)"
  by (auto simp: closestTo_def Let_def list_ex_iff list_all_iff)

lemma unat_u8_of_nat: "c < K \<Longrightarrow> K \<le> 256 \<Longrightarrow> unat (of_nat c :: u8) = c"
  by (simp add: unat_of_nat)

lemma pq_encode_loop:
  fixes pq :: "'f::linorder productQuantizer"
  assumes len: "length (flatCentroids pq) =
                  NumSubVectors (params pq) * NumCentroids (params pq) * subVectorLen pq"
    and x: "NumSubVectors (params pq) * subVectorLen pq \<le> length vector"
    and K: "0 < NumCentroids (params pq)" "NumCentroids (params pq) \<le> 256"
  shows "\<exists>code :: u8 list. forLoop [0..<NumSubVectors (params pq)]
          (\<lambda>i encoded.
             case subslice vector (i * subVectorLen pq) ((i + 1) * subVectorLen pq) of
               Inl e \<Rightarrow> Inl e
             | Inr subVector \<Rightarrow>
                 (case closestCentroid E pq i subVector of
                    Inl e \<Rightarrow> Inl e
                  | Inr (closestCentroidDistance, closestCentroidId) \<Rightarrow>
                      store encoded i (of_nat closestCentroidId)))
          (replicate (NumSubVectors (params pq)) 0) = Inr code
        \<and> length code = NumSubVectors (params pq)
        \<and> (\<forall>m < NumSubVectors (params pq).
              unat (code ! m) < NumCentroids (params pq)
              \<and> closestTo E pq vector m (unat (code ! m)))"
proof -
  let ?K = "NumCentroids (params pq)" and ?M = "NumSubVectors (params pq)"
  let ?d = "subVectorLen pq"
  let ?I = "\<lambda>i (enc :: u8 list). length enc = ?M
              \<and> (\<forall>m < i. unat (enc ! m) < ?K \<and> closestTo E pq vector m (unat (enc ! m)))"
  have "\<exists>code. forLoop [0..<?M]
          (\<lambda>i encoded.
             case subslice vector (i * ?d) ((i + 1) * ?d) of
               Inl e \<Rightarrow> Inl e
             | Inr subVector \<Rightarrow>
                 (case closestCentroid E pq i subVector of
                    Inl e \<Rightarrow> Inl e
                  | Inr (closestCentroidDistance, closestCentroidId) \<Rightarrow>
                      store encoded i (of_nat closestCentroidId)))
          (replicate ?M 0) = Inr code \<and> ?I ?M code"
  proof (rule forLoop_upt_rule [where I = ?I])
    show "?I 0 (replicate ?M 0)" by simp
  next
    fix i and enc :: "u8 list"
    assume i: "i < ?M" and inv: "?I i enc"
    have sl: "subslice vector (i * ?d) ((i + 1) * ?d) = Inr (subvectorAt pq vector i)"
      unfolding subvectorAt_def by (rule subvector_slice [OF x i])
    from closestCentroid_argmin [OF len i, of E "subvectorAt pq vector i"] obtain d c where
      cc: "closestCentroid E pq i (subvectorAt pq vector i) = Inr (d, c)"
      and cl: "closestTo E pq vector i c"
      unfolding closestTo_iff by blast
    have cK: "c < ?K" using cl K(1) unfolding closestTo_iff by (auto split: if_splits)
    have un: "unat (of_nat c :: u8) = c" by (rule unat_u8_of_nat [OF cK K(2)])
    let ?enc' = "enc[i := of_nat c]"
    have step: "(case subslice vector (i * ?d) ((i + 1) * ?d) of
               Inl e \<Rightarrow> Inl e
             | Inr subVector \<Rightarrow>
                 (case closestCentroid E pq i subVector of
                    Inl e \<Rightarrow> Inl e
                  | Inr (closestCentroidDistance, closestCentroidId) \<Rightarrow>
                      store enc i (of_nat closestCentroidId))) = Inr ?enc'"
      using sl cc i inv by (simp add: store_def)
    have "?I (Suc i) ?enc'"
    proof (intro conjI allI impI)
      show "length ?enc' = ?M" using inv by simp
    next
      fix m assume m: "m < Suc i"
      show "unat (?enc' ! m) < ?K"
      proof (cases "m = i")
        case True
        then show ?thesis using i inv un cK by simp
      next
        case False
        with m inv show ?thesis by simp
      qed
    next
      fix m assume m: "m < Suc i"
      show "closestTo E pq vector m (unat (?enc' ! m))"
      proof (cases "m = i")
        case True
        then show ?thesis using i inv un cl by simp
      next
        case False
        with m inv show ?thesis by simp
      qed
    qed
    with step show "\<exists>t'. (case subslice vector (i * ?d) ((i + 1) * ?d) of
               Inl e \<Rightarrow> Inl e
             | Inr subVector \<Rightarrow>
                 (case closestCentroid E pq i subVector of
                    Inl e \<Rightarrow> Inl e
                  | Inr (closestCentroidDistance, closestCentroidId) \<Rightarrow>
                      store enc i (of_nat closestCentroidId))) = Inr t' \<and> ?I (Suc i) t'"
      by blast
  qed
  then show ?thesis by blast
qed

text \<open>
  Claim C2, as the code has it. For a fitted quantizer with \<open>K \<le> 256\<close> and a vector of
  \<open>M * d_sub\<close> entries, \<^verbatim>\<open>encode\<close> returns \<open>M\<close> entries, each below \<open>K\<close>; entry \<open>m\<close> is the
  lowest index among the centroids nearest to the \<open>m\<close>-th subvector under the quantizer's
  own kernel (\<^verbatim>\<open>pq.distFn\<close>: Euclidean for the names euclidean and cosine, the dot kernel
  for dot), provided some distance is below \<^verbatim>\<open>math.MaxFloat32\<close>, and \<open>0\<close> otherwise. With an
  empty centroid table the code is empty. The order on \<open>'f\<close> is assumed linear.
\<close>

theorem pq_encode_closest:
  fixes pq :: "'f::linorder productQuantizer"
  shows "(flatCentroids pq \<noteq> []
          \<and> length (flatCentroids pq) =
              NumSubVectors (params pq) * NumCentroids (params pq) * subVectorLen pq
          \<and> length vector = NumSubVectors (params pq) * subVectorLen pq
          \<and> NumCentroids (params pq) \<le> 256 \<longrightarrow>
          (\<exists>code. pq_encode E pq vector = Inr code
             \<and> length code = NumSubVectors (params pq)
             \<and> (\<forall>m < NumSubVectors (params pq).
                   unat (code ! m) < NumCentroids (params pq)
                   \<and> closestTo E pq vector m (unat (code ! m)))))
       \<and> (flatCentroids pq = [] \<longrightarrow> pq_encode E pq vector = Inr [])"
proof (intro conjI impI)
  assume "flatCentroids pq = []"
  then show "pq_encode E pq vector = Inr []" by (simp add: pq_encode_def)
next
  assume a: "flatCentroids pq \<noteq> []
          \<and> length (flatCentroids pq) =
              NumSubVectors (params pq) * NumCentroids (params pq) * subVectorLen pq
          \<and> length vector = NumSubVectors (params pq) * subVectorLen pq
          \<and> NumCentroids (params pq) \<le> 256"
  then have len: "length (flatCentroids pq) =
              NumSubVectors (params pq) * NumCentroids (params pq) * subVectorLen pq"
    and x: "NumSubVectors (params pq) * subVectorLen pq \<le> length vector"
    and K2: "NumCentroids (params pq) \<le> 256" by (simp_all only: order_refl)
  from a have "flatCentroids pq \<noteq> []" by (rule conjunct1)
  then have ne: "length (flatCentroids pq) \<noteq> 0" by (simp only: length_0_conv not_False_eq_True)
  have K1: "0 < NumCentroids (params pq)"
  proof (cases "NumCentroids (params pq)")
    case 0
    have "length (flatCentroids pq) = 0" unfolding len 0 by simp
    with ne show ?thesis by simp
  next
    case (Suc n)
    then show ?thesis by simp
  qed
  from pq_encode_loop [OF len x K1 K2, of E] obtain code :: "u8 list" where
    run: "forLoop [0..<NumSubVectors (params pq)]
          (\<lambda>i encoded.
             case subslice vector (i * subVectorLen pq) ((i + 1) * subVectorLen pq) of
               Inl e \<Rightarrow> Inl e
             | Inr subVector \<Rightarrow>
                 (case closestCentroid E pq i subVector of
                    Inl e \<Rightarrow> Inl e
                  | Inr (closestCentroidDistance, closestCentroidId) \<Rightarrow>
                      store encoded i (of_nat closestCentroidId)))
          (replicate (NumSubVectors (params pq)) 0) = Inr code"
    and props: "length code = NumSubVectors (params pq)"
      "\<forall>m < NumSubVectors (params pq).
              unat (code ! m) < NumCentroids (params pq)
              \<and> closestTo E pq vector m (unat (code ! m))"
    by blast
  have "pq_encode E pq vector = Inr code"
    unfolding pq_encode_def using ne run by (simp only: if_False)
  with props
  show "\<exists>code. pq_encode E pq vector = Inr code
             \<and> length code = NumSubVectors (params pq)
             \<and> (\<forall>m < NumSubVectors (params pq).
                   unat (code ! m) < NumCentroids (params pq)
                   \<and> closestTo E pq vector m (unat (code ! m)))"
    by blast
qed

theorem pq_encode_closest_witness:
  "pq_encode realEnv (fittedPQ ''euclidean'' euclidean [0, 2, 4, 8]) [1, 7] = Inr [0, 1]
   \<and> closestTo realEnv (fittedPQ ''euclidean'' euclidean [0, 2, 4, 8]) [1, 7] 0 0
   \<and> closestTo realEnv (fittedPQ ''euclidean'' euclidean [0, 2, 4, 8]) [1, 7] 1 1
   \<and> pq_encode realEnv (fittedPQ ''euclidean'' euclidean []) [1, 7] = Inr []"
proof -
  let ?pq = "fittedPQ ''euclidean'' euclidean [0, 2, 4, 8]"
  let ?v = "[1, 7] :: real list"
  have h: "flatCentroids ?pq \<noteq> []
          \<and> length (flatCentroids ?pq) =
              NumSubVectors (params ?pq) * NumCentroids (params ?pq) * subVectorLen ?pq
          \<and> length ?v = NumSubVectors (params ?pq) * subVectorLen ?pq
          \<and> NumCentroids (params ?pq) \<le> 256"
    by (simp add: fittedPQ_simps)
  from pq_encode_closest [where pq = ?pq and vector = ?v and E = realEnv, THEN conjunct1, THEN mp, OF h]
  obtain code where code: "pq_encode realEnv ?pq ?v = Inr code"
    and cl: "\<forall>m < NumSubVectors (params ?pq). unat (code ! m) < NumCentroids (params ?pq)
                   \<and> closestTo realEnv ?pq ?v m (unat (code ! m))"
    by blast
  have eval: "pq_encode realEnv ?pq ?v = Inr [0, 1]" by code_simp
  with code have c: "code = [0, 1]" by simp
  have c0: "closestTo realEnv ?pq ?v 0 0" using cl [rule_format, of 0] c by (simp add: fittedPQ_simps)
  have c1: "closestTo realEnv ?pq ?v 1 1" using cl [rule_format, of 1] c by (simp add: fittedPQ_simps)
  have u: "flatCentroids (fittedPQ ''euclidean'' euclidean []) = []" by (simp add: fittedPQ_simps)
  have e: "pq_encode realEnv (fittedPQ ''euclidean'' euclidean []) ?v = Inr []"
    by (rule pq_encode_closest [where pq = "fittedPQ ''euclidean'' euclidean []" and vector = ?v and E = realEnv,
          THEN conjunct2, THEN mp, OF u])
  show ?thesis by (intro conjI eval c0 c1 e)
qed

text \<open>
  Claim C2 as stated fails for a quantizer constructed with the name dot: its kernel is
  the dot kernel, and \<^verbatim>\<open>encode\<close> minimises that. Fitting the two points \<open>[2, 1]\<close> and
  \<open>[1, 3]\<close> with \<open>M = 2\<close>, \<open>K = 2\<close> gives the centroids \<open>[2], [1]\<close> for subvector \<open>0\<close> and
  \<open>[1], [3]\<close> for subvector \<open>1\<close>. The code of the vector \<open>[2, 1]\<close> is then \<open>[1, 0]\<close>: entry \<open>0\<close>
  names the centroid \<open>[1]\<close> (dot product \<open>2\<close>, against \<open>4\<close> for \<open>[2]\<close>), although the centroid
  \<open>[2]\<close> is strictly nearer to the subvector \<open>[2]\<close> in Euclidean distance. (Were the dot kernel
  the negated dot product, the code would be \<open>[0, 1]\<close>, again not the Euclidean choice
  \<open>[0, 0]\<close>.)
\<close>

theorem pq_encode_dot_kernel_counterexample:
  "map_sum id distFn
     (newProductQuantizer realEnv emptyStorage ''dot''
        \<lparr>NumCentroids = 2, NumSubVectors = 2, TriggerThreshold = 2\<rparr> 2) = Inr dot
   \<and> map_sum id (\<lambda>pq'. (flatCentroids pq', pq_encode realEnv pq' [2, 1]))
       (pq_Fit (KMeans_Fit realEnv) (pqOf ''dot'' dot 2 2 1 2 dotPoints [] []))
       = Inr ([2, 1, 1, 3], Inr [1, 0])
   \<and> euclidean [2] [2] < (euclidean [2] [1] :: real)"
proof (intro conjI)
  show "map_sum id distFn
     (newProductQuantizer realEnv emptyStorage ''dot''
        \<lparr>NumCentroids = 2, NumSubVectors = 2, TriggerThreshold = 2\<rparr> 2) = Inr dot"
    by (simp add: newProductQuantizer_def GetFloatDistanceFn_def DistanceEuclidean_def
        DistanceCosine_def DistanceDot_def)
  show "map_sum id (\<lambda>pq'. (flatCentroids pq', pq_encode realEnv pq' [2, 1]))
       (pq_Fit (KMeans_Fit realEnv) (pqOf ''dot'' dot 2 2 1 2 dotPoints [] []))
       = Inr ([2, 1, 1, 3], Inr [1, 0])"
    by code_simp
  show "euclidean [2] [2] < (euclidean [2] [1] :: real)"
    by (simp add: euclidean_def)
qed

section \<open>Fitting the binary quantizer\<close>

lemma forLoop_add_vector:
  fixes s v :: "'f::plus list"
  assumes len: "length v = length s"
  shows "forLoop [0..<length v]
           (\<lambda>i s. case index s i of Inl e \<Rightarrow> Inl e | Inr a \<Rightarrow> store s i (a + v ! i)) s
         = Inr (map (\<lambda>i. s ! i + v ! i) [0..<length s])"
proof -
  let ?I = "\<lambda>k (t :: 'f list). length t = length s
              \<and> (\<forall>i < length s. t ! i = (if i < k then s ! i + v ! i else s ! i))"
  have "\<exists>t. forLoop [0..<length v]
           (\<lambda>i s. case index s i of Inl e \<Rightarrow> Inl e | Inr a \<Rightarrow> store s i (a + v ! i)) s = Inr t
          \<and> ?I (length v) t"
  proof (rule forLoop_upt_rule [where I = ?I])
    show "?I 0 s" by simp
  next
    fix k t assume k: "k < length v" and inv: "?I k t"
    have kt: "k < length t" using k len inv by simp
    have tk: "t ! k = s ! k" using inv k len by simp
    have step: "(case index t k of Inl e \<Rightarrow> Inl e | Inr a \<Rightarrow> store t k (a + v ! k))
                  = Inr (t[k := s ! k + v ! k])"
      using kt tk by (simp add: index_def store_def)
    have "?I (Suc k) (t[k := s ! k + v ! k])"
      using inv kt by (auto simp: nth_list_update less_Suc_eq)
    with step show "\<exists>t'. (case index t k of Inl e \<Rightarrow> Inl e | Inr a \<Rightarrow> store t k (a + v ! k)) = Inr t'
                      \<and> ?I (Suc k) t'"
      by blast
  qed
  then obtain t where run: "forLoop [0..<length v]
           (\<lambda>i s. case index s i of Inl e \<Rightarrow> Inl e | Inr a \<Rightarrow> store s i (a + v ! i)) s = Inr t"
    and t: "length t = length s" "\<forall>i < length s. t ! i = (if i < length v then s ! i + v ! i else s ! i)"
    by blast
  have "t = map (\<lambda>i. s ! i + v ! i) [0..<length s]"
    by (rule nth_equalityI) (use t len in simp_all)
  with run show ?thesis by simp
qed

lemma sumVectors_columns:
  fixes points :: "(u64 \<times> 'f::{zero,plus} binaryQuantizedPoint) list"
  assumes D: "\<forall>p \<in> set points. length (Vector_bq (snd p)) = D"
  shows "sumVectors points =
           Inr (if points = [] then None
                else Some (map (\<lambda>i. foldl (+) 0 (map (\<lambda>(k, point). Vector_bq point ! i) points))
                             [0..<D]),
                length points)"
  using D
proof (induction points rule: rev_induct)
  case Nil
  then show ?case by (simp add: sumVectors_def)
next
  case (snoc p ps)
  obtain k point where p: "p = (k, point)" by (cases p)
  have lp: "length (Vector_bq point) = D" using snoc.prems p by simp
  have IH: "sumVectors ps =
           Inr (if ps = [] then None
                else Some (map (\<lambda>i. foldl (+) 0 (map (\<lambda>(k, point). Vector_bq point ! i) ps))
                             [0..<D]),
                length ps)"
    using snoc by simp
  show ?case
  proof (cases "ps = []")
    case True
    have "forLoop [0..<length (Vector_bq point)]
           (\<lambda>i s. case index s i of Inl e \<Rightarrow> Inl e | Inr a \<Rightarrow> store s i (a + Vector_bq point ! i))
           (replicate (length (Vector_bq point)) 0)
         = Inr (map (\<lambda>i. replicate (length (Vector_bq point)) 0 ! i + Vector_bq point ! i)
                  [0..<length (replicate (length (Vector_bq point)) (0::'f))])"
      by (rule forLoop_add_vector) simp
    also have "map (\<lambda>i. replicate (length (Vector_bq point)) 0 ! i + Vector_bq point ! i)
                  [0..<length (replicate (length (Vector_bq point)) (0::'f))]
               = map (\<lambda>i. 0 + Vector_bq point ! i) [0..<D]"
      using lp by simp
    finally show ?thesis using True p lp by (simp add: sumVectors_def)
  next
    case False
    let ?cs = "map (\<lambda>i. foldl (+) 0 (map (\<lambda>(k, point). Vector_bq point ! i) ps)) [0..<D]"
    have "forLoop [0..<length (Vector_bq point)]
           (\<lambda>i s. case index s i of Inl e \<Rightarrow> Inl e | Inr a \<Rightarrow> store s i (a + Vector_bq point ! i))
           ?cs
         = Inr (map (\<lambda>i. ?cs ! i + Vector_bq point ! i) [0..<length ?cs])"
      by (rule forLoop_add_vector) (simp add: lp)
    also have "map (\<lambda>i. ?cs ! i + Vector_bq point ! i) [0..<length ?cs]
               = map (\<lambda>i. foldl (+) 0 (map (\<lambda>(k, point). Vector_bq point ! i) (ps @ [p]))) [0..<D]"
      using p by simp
    finally have inner: "forLoop [0..<length (Vector_bq point)]
           (\<lambda>i s. case index s i of Inl e \<Rightarrow> Inl e | Inr a \<Rightarrow> store s i (a + Vector_bq point ! i))
           ?cs
         = Inr (map (\<lambda>i. foldl (+) 0 (map (\<lambda>(k, point). Vector_bq point ! i) (ps @ [p]))) [0..<D])" .
    show ?thesis
      using IH False inner p unfolding sumVectors_def
      by (simp add: forLoop_append)
  qed
qed

lemma bq_encode_Some:
  fixes bq :: "'f::ord binaryQuantizer"
  assumes "threshold bq = Some thr" "length v \<le> length thr"
  shows "\<exists>ws. bq_encode bq v = Inr (Some ws)"
proof -
  from bq_encode_loop [OF assms(2)] obtain ws where
    "forLoop [0..<length v]
            (\<lambda>i encoded.
               case index thr i of
                 Inl e \<Rightarrow> Inl e
               | Inr t \<Rightarrow>
                   if v ! i > t
                   then store encoded (i div 64) (encoded ! (i div 64) OR push_bit (i mod 64) 1)
                   else Inr encoded)
            (replicate ((length v + 63) div 64) (0::u64)) = Inr ws"
    by blast
  moreover have "(if 0 < length v mod 64 then length v div 64 + 1 else length v div 64)
            = (length v + 63) div 64"
    using numUint64s_eq [of "length v"] by simp
  ultimately show ?thesis unfolding bq_encode_def Let_def using assms(1) by simp
qed

lemma encodePoints_all:
  fixes bq :: "'f::ord binaryQuantizer"
  assumes thr: "threshold bq = Some thr"
    and D: "\<forall>p \<in> set points. length (Vector_bq (snd p)) \<le> length thr"
  shows "\<exists>points'. forLoop points
       (\<lambda>(i, point) encodedPoints.
          case bq_encode bq (Vector_bq point) of
            Inl e \<Rightarrow> Inl e
          | Inr encoded \<Rightarrow>
              Inr (encodedPoints @
                   [(i, point\<lparr>BinaryVector := (case encoded of None \<Rightarrow> [] | Some ws \<Rightarrow> ws),
                             isDirty_bq := True\<rparr>)]))
       acc = Inr (acc @ points')
     \<and> length points' = length points
     \<and> (\<forall>j < length points.
           fst (points' ! j) = fst (points ! j)
           \<and> id_bq (snd (points' ! j)) = id_bq (snd (points ! j))
           \<and> Vector_bq (snd (points' ! j)) = Vector_bq (snd (points ! j))
           \<and> isDirty_bq (snd (points' ! j))
           \<and> bq_encode bq (Vector_bq (snd (points ! j))) = Inr (Some (BinaryVector (snd (points' ! j)))))"
  using D
proof (induction points arbitrary: acc)
  case Nil
  then show ?case by simp
next
  case (Cons p ps)
  obtain k point where p: "p = (k, point)" by (cases p)
  from Cons.prems p have "length (Vector_bq point) \<le> length thr" by simp
  from bq_encode_Some [OF thr this] obtain ws where ws: "bq_encode bq (Vector_bq point) = Inr (Some ws)"
    by blast
  let ?p' = "(k, point\<lparr>BinaryVector := ws, isDirty_bq := True\<rparr>)"
  from Cons.prems have "\<forall>p \<in> set ps. length (Vector_bq (snd p)) \<le> length thr" by simp
  from Cons.IH [OF this, of "acc @ [?p']"] obtain ps' where
    run: "forLoop ps
       (\<lambda>(i, point) encodedPoints.
          case bq_encode bq (Vector_bq point) of
            Inl e \<Rightarrow> Inl e
          | Inr encoded \<Rightarrow>
              Inr (encodedPoints @
                   [(i, point\<lparr>BinaryVector := (case encoded of None \<Rightarrow> [] | Some ws \<Rightarrow> ws),
                             isDirty_bq := True\<rparr>)]))
       (acc @ [?p']) = Inr ((acc @ [?p']) @ ps')"
    and len: "length ps' = length ps"
    and each: "\<And>j. j < length ps \<Longrightarrow>
           fst (ps' ! j) = fst (ps ! j)
           \<and> id_bq (snd (ps' ! j)) = id_bq (snd (ps ! j))
           \<and> Vector_bq (snd (ps' ! j)) = Vector_bq (snd (ps ! j))
           \<and> isDirty_bq (snd (ps' ! j))
           \<and> bq_encode bq (Vector_bq (snd (ps ! j))) = Inr (Some (BinaryVector (snd (ps' ! j))))"
    by blast
  have "\<forall>j < length (p # ps).
           fst ((?p' # ps') ! j) = fst ((p # ps) ! j)
           \<and> id_bq (snd ((?p' # ps') ! j)) = id_bq (snd ((p # ps) ! j))
           \<and> Vector_bq (snd ((?p' # ps') ! j)) = Vector_bq (snd ((p # ps) ! j))
           \<and> isDirty_bq (snd ((?p' # ps') ! j))
           \<and> bq_encode bq (Vector_bq (snd ((p # ps) ! j))) = Inr (Some (BinaryVector (snd ((?p' # ps') ! j))))"
  proof (intro allI impI)
    fix j assume "j < length (p # ps)"
    then show "fst ((?p' # ps') ! j) = fst ((p # ps) ! j)
           \<and> id_bq (snd ((?p' # ps') ! j)) = id_bq (snd ((p # ps) ! j))
           \<and> Vector_bq (snd ((?p' # ps') ! j)) = Vector_bq (snd ((p # ps) ! j))
           \<and> isDirty_bq (snd ((?p' # ps') ! j))
           \<and> bq_encode bq (Vector_bq (snd ((p # ps) ! j))) = Inr (Some (BinaryVector (snd ((?p' # ps') ! j))))"
      using each [of "j - 1"] p ws by (cases j) simp_all
  qed
  moreover have "forLoop (p # ps)
       (\<lambda>(i, point) encodedPoints.
          case bq_encode bq (Vector_bq point) of
            Inl e \<Rightarrow> Inl e
          | Inr encoded \<Rightarrow>
              Inr (encodedPoints @
                   [(i, point\<lparr>BinaryVector := (case encoded of None \<Rightarrow> [] | Some ws \<Rightarrow> ws),
                             isDirty_bq := True\<rparr>)]))
       acc = Inr (acc @ (?p' # ps'))"
    using run p ws by simp
  moreover have "length (?p' # ps') = length (p # ps)" using len by simp
  ultimately show ?case by blast
qed

lemma bq_encode_threshold_cong:
  "threshold a = threshold b \<Longrightarrow> bq_encode a v = bq_encode b v"
  by (simp add: bq_encode_def)

text \<open>
  Claim C4. When \<^verbatim>\<open>binaryQuantizer.Fit\<close> runs (threshold unset, count at least the trigger)
  on a non-empty cache whose vectors all have length \<open>D\<close>, it returns \<^verbatim>\<open>nil\<close>; the threshold
  becomes, at every \<open>i < D\<close>, the sum of the \<open>i\<close>-th coordinates divided by the number of
  points; every point keeps its id and vector, is marked dirty, and its binary vector is
  the encoding of its vector against the new threshold.
\<close>

theorem bq_Fit_mean_threshold:
  fixes bq :: "'f::{zero,plus,inverse,ord} binaryQuantizer"
  assumes unset: "threshold bq = None"
    and count: "TriggerThreshold_bq (params_bq bq) \<le> Count (items_bq bq)"
    and nonempty: "resident (items_bq bq) \<noteq> []"
    and D: "\<forall>p \<in> set (resident (items_bq bq)). length (Vector_bq (snd p)) = D"
  shows "\<exists>bq'. bq_Fit E bq = Inr bq'
          \<and> threshold bq' = Some (map (coordinateMean E (resident (items_bq bq))) [0..<D])
          \<and> length (resident (items_bq bq')) = length (resident (items_bq bq))
          \<and> (\<forall>j < length (resident (items_bq bq)).
                fst (resident (items_bq bq') ! j) = fst (resident (items_bq bq) ! j)
                \<and> id_bq (snd (resident (items_bq bq') ! j)) = id_bq (snd (resident (items_bq bq) ! j))
                \<and> Vector_bq (snd (resident (items_bq bq') ! j))
                    = Vector_bq (snd (resident (items_bq bq) ! j))
                \<and> isDirty_bq (snd (resident (items_bq bq') ! j))
                \<and> bq_encode bq' (Vector_bq (snd (resident (items_bq bq) ! j)))
                    = Inr (Some (BinaryVector (snd (resident (items_bq bq') ! j)))))"
proof -
  let ?pts = "resident (items_bq bq)"
  let ?thr = "map (coordinateMean E ?pts) [0..<D]"
  let ?bq1 = "bq\<lparr>threshold := Some ?thr\<rparr>"
  have sv: "sumVectors ?pts =
              Inr (Some (map (\<lambda>i. foldl (+) 0 (map (\<lambda>(k, point). Vector_bq point ! i) ?pts)) [0..<D]),
                   length ?pts)"
    using sumVectors_columns [OF D] nonempty by simp
  have thr: "map_option (map (\<lambda>s. s / float32 E (length ?pts)))
               (Some (map (\<lambda>i. foldl (+) 0 (map (\<lambda>(k, point). Vector_bq point ! i) ?pts)) [0..<D]))
             = Some ?thr"
    by (simp add: coordinateMean_def)
  have t1: "threshold ?bq1 = Some ?thr" by simp
  have D': "\<forall>p \<in> set ?pts. length (Vector_bq (snd p)) \<le> length ?thr" using D by simp
  from encodePoints_all [OF t1 D', of "[]"] obtain points' where
    ep: "encodePoints ?bq1 ?pts = Inr points'"
    and len: "length points' = length ?pts"
    and each: "\<forall>j < length ?pts.
           fst (points' ! j) = fst (?pts ! j)
           \<and> id_bq (snd (points' ! j)) = id_bq (snd (?pts ! j))
           \<and> Vector_bq (snd (points' ! j)) = Vector_bq (snd (?pts ! j))
           \<and> isDirty_bq (snd (points' ! j))
           \<and> bq_encode ?bq1 (Vector_bq (snd (?pts ! j))) = Inr (Some (BinaryVector (snd (points' ! j))))"
    unfolding encodePoints_def by auto
  let ?bq' = "?bq1\<lparr>items_bq := (items_bq bq)\<lparr>resident := points'\<rparr>\<rparr>"
  have gate: "\<not> (threshold bq \<noteq> None \<or> Count (items_bq bq) < TriggerThreshold_bq (params_bq bq))"
    using unset count by simp
  have fit: "bq_Fit E bq = Inr ?bq'"
    unfolding bq_Fit_def by (simp only: gate if_False sv sum.case prod.case Let_def thr ep)
  have enc: "bq_encode ?bq' v = bq_encode ?bq1 v" for v
    by (rule bq_encode_threshold_cong) simp
  show ?thesis
    using fit len each by (simp add: enc)
qed

theorem bq_Fit_mean_threshold_witness:
  "threshold (bqOf None 2 twoBinaryPoints) = None
   \<and> resident (items_bq (bqOf None 2 twoBinaryPoints)) \<noteq> []
   \<and> (case bq_Fit realEnv (bqOf None 2 twoBinaryPoints) of
        Inl e \<Rightarrow> False
      | Inr bq' \<Rightarrow>
          threshold bq' = Some [1, 1, 1, 1]
          \<and> map (\<lambda>(k, point). BinaryVector point) (resident (items_bq bq')) = [[0], [15]]
          \<and> map (\<lambda>(k, point). isDirty_bq point) (resident (items_bq bq')) = [True, True])"
proof -
  let ?bq = "bqOf None 2 twoBinaryPoints"
  have unset: "threshold ?bq = None" by (simp add: bqOf_def)
  have count: "TriggerThreshold_bq (params_bq ?bq) \<le> Count (items_bq ?bq)"
    by (simp add: bqOf_def Count_def twoBinaryPoints_def)
  have nonempty: "resident (items_bq ?bq) \<noteq> []" by (simp add: bqOf_def twoBinaryPoints_def)
  have D: "\<forall>p \<in> set (resident (items_bq ?bq)). length (Vector_bq (snd p)) = 4"
    by (simp add: bqOf_def twoBinaryPoints_def bqPoint_def)
  from bq_Fit_mean_threshold [OF unset count nonempty D, of realEnv] obtain bq' where
    fit: "bq_Fit realEnv ?bq = Inr bq'"
    and thr: "threshold bq' = Some (map (coordinateMean realEnv (resident (items_bq ?bq))) [0..<4])"
    by blast
  have "map (coordinateMean realEnv (resident (items_bq ?bq))) [0..<4] = [1, 1, 1, 1]"
    by code_simp
  with thr have thr': "threshold bq' = Some [1, 1, 1, 1]" by simp
  have "map_sum id (\<lambda>bq'. (map (\<lambda>(k, point). BinaryVector point) (resident (items_bq bq')),
                           map (\<lambda>(k, point). isDirty_bq point) (resident (items_bq bq'))))
          (bq_Fit realEnv ?bq) = Inr ([[0], [15]], [True, True])"
    by code_simp
  with fit have pts: "map (\<lambda>(k, point). BinaryVector point) (resident (items_bq bq')) = [[0], [15]]"
    "map (\<lambda>(k, point). isDirty_bq point) (resident (items_bq bq')) = [True, True]"
    by simp_all
  have "(case bq_Fit realEnv ?bq of
        Inl e \<Rightarrow> False
      | Inr bq' \<Rightarrow>
          threshold bq' = Some [1, 1, 1, 1]
          \<and> map (\<lambda>(k, point). BinaryVector point) (resident (items_bq bq')) = [[0], [15]]
          \<and> map (\<lambda>(k, point). isDirty_bq point) (resident (items_bq bq')) = [True, True])"
    unfolding fit sum.case using thr' pts by (intro conjI)
  with unset nonempty show ?thesis by (intro conjI)
qed

section \<open>Fitting the product quantizer\<close>

lemma euclidean_acc_nonneg:
  fixes acc :: "'f::linordered_idom"
  shows "0 \<le> acc \<Longrightarrow> 0 \<le> foldl (\<lambda>acc (a, b). acc + (a - b) * (a - b)) acc zs"
proof (induction zs arbitrary: acc)
  case Nil
  then show ?case by simp
next
  case (Cons z zs)
  obtain a b where z: "z = (a, b)" by (cases z)
  have "0 \<le> acc + (a - b) * (a - b)" using Cons.prems by simp
  from Cons.IH [OF this] show ?case by (simp add: z)
qed

lemma euclidean_nonneg: "0 \<le> euclidean x (y :: 'f::linordered_idom list)"
  unfolding euclidean_def by (rule euclidean_acc_nonneg) simp

lemma euclidean_acc_sym:
  fixes acc :: "'f::comm_ring"
  shows "foldl (\<lambda>acc (a, b). acc + (a - b) * (a - b)) acc (zip x y)
         = foldl (\<lambda>acc (a, b). acc + (a - b) * (a - b)) acc (zip y x)"
proof (induction x arbitrary: y acc)
  case Nil
  then show ?case by simp
next
  case (Cons a x)
  show ?case
  proof (cases y)
    case Nil
    then show ?thesis by simp
  next
    case (Cons b y')
    have "(a - b) * (a - b) = (b - a) * (b - a)" by (simp add: algebra_simps)
    then show ?thesis using Cons.IH [of "acc + (b - a) * (b - a)" y'] Cons by simp
  qed
qed

lemma euclidean_sym: "euclidean x y = euclidean y (x :: 'f::comm_ring list)"
  unfolding euclidean_def by (rule euclidean_acc_sym)

lemma euclidean_acc_self:
  fixes acc :: "'f::comm_ring"
  shows "foldl (\<lambda>acc (a, b). acc + (a - b) * (a - b)) acc (zip x x) = acc"
  by (induction x arbitrary: acc) simp_all

lemma euclidean_self: "euclidean x x = (0 :: 'f::comm_ring)"
  unfolding euclidean_def by (rule euclidean_acc_self)

lemma dot_acc_sym:
  fixes acc :: "'f::comm_semiring_0"
  shows "foldl (\<lambda>acc (a, b). acc + a * b) acc (zip x y)
         = foldl (\<lambda>acc (a, b). acc + a * b) acc (zip y x)"
proof (induction x arbitrary: y acc)
  case Nil
  then show ?case by simp
next
  case (Cons a x)
  show ?case
  proof (cases y)
    case Nil
    then show ?thesis by simp
  next
    case (Cons b y')
    then show ?thesis using Cons.IH [of "acc + b * a" y'] by (simp add: mult.commute)
  qed
qed

lemma dot_sym: "dot x y = dot y (x :: 'f::comm_semiring_0 list)"
  unfolding dot_def by (rule dot_acc_sym)

lemma centroidDistIdx_row:
  "centroidDistIdx pq i j k
     = (i * NumCentroids (params pq) + j) * NumCentroids (params pq) + k"
  by (simp add: centroidDistIdx_def add_mult_distrib)

lemma forLoop_centroidDists_row:
  fixes pq :: "'f productQuantizer"
  assumes cs: "NumCentroids (params pq) \<le> length cs"
    and i: "i < NumSubVectors (params pq)" and j: "j < NumCentroids (params pq)"
    and u: "length u = NumSubVectors (params pq) * NumCentroids (params pq) * NumCentroids (params pq)"
  shows "\<exists>u'. forLoop [0..<NumCentroids (params pq)]
            (\<lambda>k ds.
               case index cs j of
                 Inl e \<Rightarrow> Inl e
               | Inr cj \<Rightarrow>
                   (case index cs k of
                      Inl e \<Rightarrow> Inl e
                    | Inr ck \<Rightarrow> store ds (centroidDistIdx pq i j k) (distFn pq cj ck)))
            u = Inr u'
          \<and> length u' = length u
          \<and> (\<forall>b < NumCentroids (params pq).
                u' ! ((i * NumCentroids (params pq) + j) * NumCentroids (params pq) + b)
                  = distFn pq (cs ! j) (cs ! b))
          \<and> (\<forall>n < length u. n < (i * NumCentroids (params pq) + j) * NumCentroids (params pq)
                \<longrightarrow> u' ! n = u ! n)"
proof -
  let ?K = "NumCentroids (params pq)" and ?M = "NumSubVectors (params pq)"
  let ?r = "i * ?K + j"
  have r: "?r < ?M * ?K" by (rule row_index_less [OF i j])
  let ?J = "\<lambda>k (t :: 'f list). length t = length u
              \<and> (\<forall>b < k. t ! (?r * ?K + b) = distFn pq (cs ! j) (cs ! b))
              \<and> (\<forall>n < length u. n < ?r * ?K \<longrightarrow> t ! n = u ! n)"
  have "\<exists>u'. forLoop [0..<?K]
            (\<lambda>k ds.
               case index cs j of
                 Inl e \<Rightarrow> Inl e
               | Inr cj \<Rightarrow>
                   (case index cs k of
                      Inl e \<Rightarrow> Inl e
                    | Inr ck \<Rightarrow> store ds (centroidDistIdx pq i j k) (distFn pq cj ck)))
            u = Inr u' \<and> ?J ?K u'"
  proof (rule forLoop_upt_rule [where I = ?J])
    show "?J 0 u" by simp
  next
    fix k t assume k: "k < ?K" and inv: "?J k t"
    have cj: "index cs j = Inr (cs ! j)" and ck: "index cs k = Inr (cs ! k)"
      using cs j k by (simp_all add: index_def)
    have lt: "?r * ?K + k < length t" using row_index_less [OF r k] inv u by simp
    let ?t' = "t[?r * ?K + k := distFn pq (cs ! j) (cs ! k)]"
    have step: "(case index cs j of
                 Inl e \<Rightarrow> Inl e
               | Inr cj \<Rightarrow>
                   (case index cs k of
                      Inl e \<Rightarrow> Inl e
                    | Inr ck \<Rightarrow> store t (centroidDistIdx pq i j k) (distFn pq cj ck))) = Inr ?t'"
      using cj ck lt by (simp add: centroidDistIdx_row store_def)
    have "?J (Suc k) ?t'"
    proof (intro conjI allI impI)
      show "length ?t' = length u" using inv by simp
    next
      fix b assume b: "b < Suc k"
      show "?t' ! (?r * ?K + b) = distFn pq (cs ! j) (cs ! b)"
      proof (cases "b = k")
        case True
        then show ?thesis using lt by simp
      next
        case False
        with b have "b < k" by simp
        with inv have "t ! (?r * ?K + b) = distFn pq (cs ! j) (cs ! b)" by blast
        with False show ?thesis by simp
      qed
    next
      fix n assume n: "n < length u" "n < ?r * ?K"
      then have "n \<noteq> ?r * ?K + k" by simp
      with inv n show "?t' ! n = u ! n" by simp
    qed
    with step show "\<exists>t'. (case index cs j of
                 Inl e \<Rightarrow> Inl e
               | Inr cj \<Rightarrow>
                   (case index cs k of
                      Inl e \<Rightarrow> Inl e
                    | Inr ck \<Rightarrow> store t (centroidDistIdx pq i j k) (distFn pq cj ck))) = Inr t'
                  \<and> ?J (Suc k) t'"
      by blast
  qed
  then show ?thesis by blast
qed

lemma updateCentroidDists_block:
  fixes pq :: "'f productQuantizer"
  assumes cs: "NumCentroids (params pq) \<le> length cs"
    and i: "i < NumSubVectors (params pq)"
    and d: "length dists = NumSubVectors (params pq) * NumCentroids (params pq) * NumCentroids (params pq)"
  shows "\<exists>dists'. updateCentroidDists pq cs i dists = Inr dists'
          \<and> length dists' = length dists
          \<and> (\<forall>a < NumCentroids (params pq). \<forall>b < NumCentroids (params pq).
                dists' ! ((i * NumCentroids (params pq) + a) * NumCentroids (params pq) + b)
                  = distFn pq (cs ! a) (cs ! b))
          \<and> (\<forall>n < length dists. n < (i * NumCentroids (params pq)) * NumCentroids (params pq)
                \<longrightarrow> dists' ! n = dists ! n)"
proof -
  let ?K = "NumCentroids (params pq)" and ?M = "NumSubVectors (params pq)"
  let ?I = "\<lambda>j (t :: 'f list). length t = length dists
              \<and> (\<forall>a < j. \<forall>b < ?K. t ! ((i * ?K + a) * ?K + b) = distFn pq (cs ! a) (cs ! b))
              \<and> (\<forall>n < length dists. n < (i * ?K) * ?K \<longrightarrow> t ! n = dists ! n)"
  have "\<exists>dists'. updateCentroidDists pq cs i dists = Inr dists' \<and> ?I ?K dists'"
    unfolding updateCentroidDists_def
  proof (rule forLoop_upt_rule [where I = ?I])
    show "?I 0 dists" by simp
  next
    fix j t assume j: "j < ?K" and inv: "?I j t"
    from inv d have lt: "length t = ?M * ?K * ?K" by simp
    from forLoop_centroidDists_row [OF cs i j lt] obtain t' where
      run: "forLoop [0..<?K]
            (\<lambda>k ds.
               case index cs j of
                 Inl e \<Rightarrow> Inl e
               | Inr cj \<Rightarrow>
                   (case index cs k of
                      Inl e \<Rightarrow> Inl e
                    | Inr ck \<Rightarrow> store ds (centroidDistIdx pq i j k) (distFn pq cj ck)))
            t = Inr t'"
      and lt': "length t' = length t"
      and new: "\<And>b. b < ?K \<Longrightarrow> t' ! ((i * ?K + j) * ?K + b) = distFn pq (cs ! j) (cs ! b)"
      and old: "\<And>n. n < length t \<Longrightarrow> n < (i * ?K + j) * ?K \<Longrightarrow> t' ! n = t ! n"
      by blast
    have "?I (Suc j) t'"
    proof (intro conjI allI impI)
      show "length t' = length dists" using lt' inv by simp
    next
      fix a b assume a: "a < Suc j" and b: "b < ?K"
      show "t' ! ((i * ?K + a) * ?K + b) = distFn pq (cs ! a) (cs ! b)"
      proof (cases "a = j")
        case True
        then show ?thesis using new [OF b] by simp
      next
        case False
        with a have aj: "a < j" by simp
        then have "i * ?K + a < i * ?K + j" by simp
        from row_index_less [OF this b] have below: "(i * ?K + a) * ?K + b < (i * ?K + j) * ?K" .
        have "i * ?K + j < ?M * ?K" by (rule row_index_less [OF i j])
        then have "(i * ?K + j) * ?K \<le> ?M * ?K * ?K" by (intro mult_le_mono1) simp
        with below have "(i * ?K + a) * ?K + b < ?M * ?K * ?K" by (rule less_le_trans)
        then have "(i * ?K + a) * ?K + b < length t" unfolding lt .
        from old [OF this below] inv aj b show ?thesis by simp
      qed
    next
      fix n assume n: "n < length dists" "n < (i * ?K) * ?K"
      have "(i * ?K) * ?K \<le> (i * ?K + j) * ?K" by (intro mult_le_mono1) simp
      with n(2) have "n < (i * ?K + j) * ?K" by (rule less_le_trans)
      moreover have "n < length t" using n inv by simp
      ultimately have "t' ! n = t ! n" by (rule old [rotated])
      with inv n show "t' ! n = dists ! n" by simp
    qed
    with run show "\<exists>t'. forLoop [0..<?K]
            (\<lambda>k ds.
               case index cs j of
                 Inl e \<Rightarrow> Inl e
               | Inr cj \<Rightarrow>
                   (case index cs k of
                      Inl e \<Rightarrow> Inl e
                    | Inr ck \<Rightarrow> store ds (centroidDistIdx pq i j k) (distFn pq cj ck)))
            t = Inr t' \<and> ?I (Suc j) t'"
      by blast
  qed
  then show ?thesis by blast
qed

lemma updateFlatCentroids_total:
  fixes pq :: "'f productQuantizer"
  assumes cs: "NumCentroids (params pq) \<le> length cs"
    and i: "i < NumSubVectors (params pq)"
    and f: "length flat = NumSubVectors (params pq) * NumCentroids (params pq) * subVectorLen pq"
  shows "\<exists>flat'. updateFlatCentroids pq cs i flat = Inr flat' \<and> length flat' = length flat"
proof -
  let ?K = "NumCentroids (params pq)" and ?d = "subVectorLen pq"
  let ?I = "\<lambda>(j::nat) (t :: 'f list). length t = length flat"
  have "\<exists>flat'. updateFlatCentroids pq cs i flat = Inr flat' \<and> ?I ?K flat'"
    unfolding updateFlatCentroids_def
  proof (rule forLoop_upt_rule [where I = ?I])
    show "?I 0 flat" by simp
  next
    fix j t assume j: "j < ?K" and inv: "?I j t"
    from inv f have lt: "length t = NumSubVectors (params pq) * ?K * ?d" by simp
    have sl: "subslice t (i * ?K * ?d + j * ?d) (i * ?K * ?d + j * ?d + ?d)
                = Inr (take ?d (drop (i * ?K * ?d + j * ?d) t))"
      by (rule centroid_slice [OF lt i j])
    from subslice_Inr [OF sl] have w: "length (take ?d (drop (i * ?K * ?d + j * ?d) t)) = ?d"
      and bound: "i * ?K * ?d + j * ?d + ?d \<le> length t" by simp_all
    have c: "index cs j = Inr (cs ! j)" using cs j by (simp add: index_def)
    let ?t' = "copyInto t (i * ?K * ?d + j * ?d) ?d (cs ! j)"
    have "length ?t' = length t" by (rule length_copyInto [OF bound])
    moreover have "(case flatCentroidSlice pq i j of (start, end) \<Rightarrow>
            (case subslice t start end of
               Inl e \<Rightarrow> Inl e
             | Inr window \<Rightarrow>
                 (case index cs j of
                    Inl e \<Rightarrow> Inl e
                  | Inr c \<Rightarrow> Inr (copyInto t start (length window) c)))) = Inr ?t'"
      unfolding flatCentroidSlice_def Let_def prod.case sl sum.case c w ..
    ultimately show "\<exists>t'. (case flatCentroidSlice pq i j of (start, end) \<Rightarrow>
            (case subslice t start end of
               Inl e \<Rightarrow> Inl e
             | Inr window \<Rightarrow>
                 (case index cs j of
                    Inl e \<Rightarrow> Inl e
                  | Inr c \<Rightarrow> Inr (copyInto t start (length window) c)))) = Inr t' \<and> ?I (Suc j) t'"
      using inv by simp
  qed
  then show ?thesis by blast
qed

lemma updateCodes_total:
  fixes points :: "(u64 \<times> 'f productQuantizedPoint) list"
  assumes labels: "length points \<le> length labels"
    and ids: "\<forall>j < length points. i < length (CentroidIds (snd (points ! j)))"
  shows "\<exists>points'. updateCodes labels i points = Inr points'
          \<and> length points' = length points
          \<and> (\<forall>j < length points.
                points' ! j = (fst (points ! j),
                               (snd (points ! j))\<lparr>CentroidIds :=
                                  (CentroidIds (snd (points ! j)))[i := labels ! j]\<rparr>))"
proof -
  let ?upd = "\<lambda>p :: u64 \<times> 'f productQuantizedPoint. \<lambda>j.
                (fst p, (snd p)\<lparr>CentroidIds := (CentroidIds (snd p))[i := labels ! j]\<rparr>)"
  let ?I = "\<lambda>k (t :: (u64 \<times> 'f productQuantizedPoint) list). length t = length points
              \<and> (\<forall>j < length points. t ! j = (if j < k then ?upd (points ! j) j else points ! j))"
  have "\<exists>points'. updateCodes labels i points = Inr points' \<and> ?I (length points) points'"
    unfolding updateCodes_def
  proof (rule forLoop_upt_rule [where I = ?I])
    show "?I 0 points" by simp
  next
    fix k t assume k: "k < length points" and inv: "?I k t"
    have tk: "t ! k = points ! k" using inv k by simp
    have l: "index labels k = Inr (labels ! k)" using k labels by (simp add: index_def)
    have s: "store (CentroidIds (snd (t ! k))) i (labels ! k)
               = Inr ((CentroidIds (snd (points ! k)))[i := labels ! k])"
      using ids k tk by (simp add: store_def)
    let ?t' = "t[k := ?upd (points ! k) k]"
    have step: "(case index labels k of
            Inl e \<Rightarrow> Inl e
          | Inr l \<Rightarrow>
              (case store (CentroidIds (snd (t ! k))) i l of
                 Inl e \<Rightarrow> Inl e
               | Inr ids \<Rightarrow>
                   Inr (t[k := (fst (t ! k), (snd (t ! k))\<lparr>CentroidIds := ids\<rparr>)]))) = Inr ?t'"
      unfolding l sum.case s by (simp add: tk)
    have "?I (Suc k) ?t'"
      using inv k by (auto simp: nth_list_update less_Suc_eq)
    with step show "\<exists>t'. (case index labels k of
            Inl e \<Rightarrow> Inl e
          | Inr l \<Rightarrow>
              (case store (CentroidIds (snd (t ! k))) i l of
                 Inl e \<Rightarrow> Inl e
               | Inr ids \<Rightarrow>
                   Inr (t[k := (fst (t ! k), (snd (t ! k))\<lparr>CentroidIds := ids\<rparr>)]))) = Inr t'
              \<and> ?I (Suc k) t'"
      by blast
  qed
  then show ?thesis by auto
qed

lemma trainerContractD:
  "trainerContract km pq \<Longrightarrow> m < NumSubVectors (params pq) \<Longrightarrow>
     NumCentroids (params pq) \<le> length (Centroids (trainSubvector km pq (allVectorsOf pq) m))
     \<and> length (resident (items pq)) \<le> length (Labels (trainSubvector km pq (allVectorsOf pq) m))"
  by (simp add: trainerContract_def list_all_iff)

lemma fitSubvector_step:
  fixes pq :: "'f productQuantizer"
  assumes i: "i < NumSubVectors (params pq)"
    and cs: "NumCentroids (params pq) \<le> length (Centroids (trainSubvector km pq vs i))"
    and ls: "length p \<le> length (Labels (trainSubvector km pq vs i))"
    and ids: "\<forall>j < length p. length (CentroidIds (snd (p ! j))) = NumSubVectors (params pq)"
    and f: "length f = NumSubVectors (params pq) * NumCentroids (params pq) * subVectorLen pq"
    and d: "length d = NumSubVectors (params pq) * NumCentroids (params pq) * NumCentroids (params pq)"
  shows "\<exists>p' f' d'. fitSubvector km pq vs i (p, f, d) = Inr (p', f', d')
          \<and> length p' = length p \<and> length f' = length f \<and> length d' = length d
          \<and> (\<forall>j < length p.
                p' ! j = (fst (p ! j),
                          (snd (p ! j))\<lparr>CentroidIds :=
                             (CentroidIds (snd (p ! j)))[i := Labels (trainSubvector km pq vs i) ! j]\<rparr>))
          \<and> (\<forall>a < NumCentroids (params pq). \<forall>b < NumCentroids (params pq).
                d' ! ((i * NumCentroids (params pq) + a) * NumCentroids (params pq) + b)
                  = distFn pq (Centroids (trainSubvector km pq vs i) ! a)
                              (Centroids (trainSubvector km pq vs i) ! b))
          \<and> (\<forall>n < length d. n < (i * NumCentroids (params pq)) * NumCentroids (params pq)
                \<longrightarrow> d' ! n = d ! n)"
proof -
  let ?km = "trainSubvector km pq vs i"
  have ids': "\<forall>j < length p. i < length (CentroidIds (snd (p ! j)))" using ids i by simp
  from updateCodes_total [OF ls ids'] obtain p' where
    p': "updateCodes (Labels ?km) i p = Inr p'" "length p' = length p"
      "\<forall>j < length p.
                p' ! j = (fst (p ! j),
                          (snd (p ! j))\<lparr>CentroidIds :=
                             (CentroidIds (snd (p ! j)))[i := Labels ?km ! j]\<rparr>)"
    by blast
  from updateFlatCentroids_total [OF cs i f] obtain f' where
    f': "updateFlatCentroids pq (Centroids ?km) i f = Inr f'" "length f' = length f"
    by blast
  from updateCentroidDists_block [OF cs i d] obtain d' where
    d': "updateCentroidDists pq (Centroids ?km) i d = Inr d'" "length d' = length d"
      "\<forall>a < NumCentroids (params pq). \<forall>b < NumCentroids (params pq).
                d' ! ((i * NumCentroids (params pq) + a) * NumCentroids (params pq) + b)
                  = distFn pq (Centroids ?km ! a) (Centroids ?km ! b)"
      "\<forall>n < length d. n < (i * NumCentroids (params pq)) * NumCentroids (params pq)
                \<longrightarrow> d' ! n = d ! n"
    by blast
  have "fitSubvector km pq vs i (p, f, d) = Inr (p', f', d')"
    unfolding fitSubvector_def Let_def prod.case p'(1) f'(1) d'(1) sum.case ..
  with p'(2,3) f'(2) d'(2,3,4) show ?thesis by blast
qed

lemma pq_Fit_runs:
  fixes pq :: "'f::zero productQuantizer"
  assumes unfit: "flatCentroids pq = []"
    and count: "TriggerThreshold (params pq) \<le> Count (items pq)"
    and contract: "trainerContract km pq"
  shows "\<exists>pq'. pq_Fit km pq = Inr pq'
          \<and> params pq' = params pq \<and> subVectorLen pq' = subVectorLen pq \<and> distFn pq' = distFn pq
          \<and> length (flatCentroids pq')
              = NumSubVectors (params pq) * NumCentroids (params pq) * subVectorLen pq
          \<and> length (centroidDists pq')
              = NumSubVectors (params pq) * NumCentroids (params pq) * NumCentroids (params pq)
          \<and> (\<forall>m < NumSubVectors (params pq). \<forall>a < NumCentroids (params pq).
               \<forall>b < NumCentroids (params pq).
                 centroidDists pq' ! centroidDistIdx pq m a b
                   = distFn pq (Centroids (trainSubvector km pq (allVectorsOf pq) m) ! a)
                               (Centroids (trainSubvector km pq (allVectorsOf pq) m) ! b))
          \<and> length (resident (items pq')) = length (resident (items pq))
          \<and> (\<forall>j < length (resident (items pq)).
                fst (resident (items pq') ! j) = fst (resident (items pq) ! j)
                \<and> Vector (snd (resident (items pq') ! j)) = Vector (snd (resident (items pq) ! j))
                \<and> isDirty (snd (resident (items pq') ! j))
                \<and> length (CentroidIds (snd (resident (items pq') ! j))) = NumSubVectors (params pq)
                \<and> (\<forall>m < NumSubVectors (params pq).
                      CentroidIds (snd (resident (items pq') ! j)) ! m
                        = Labels (trainSubvector km pq (allVectorsOf pq) m) ! j))"
proof -
  let ?K = "NumCentroids (params pq)" and ?M = "NumSubVectors (params pq)"
  let ?d = "subVectorLen pq"
  let ?res = "resident (items pq)"
  let ?N = "length ?res"
  let ?vs = "allVectorsOf pq"
  let ?T = "\<lambda>m. trainSubvector km pq ?vs m"
  let ?p0 = "map (\<lambda>(i, point). (i, point\<lparr>CentroidIds := replicate ?M 0, isDirty := True\<rparr>)) ?res"
  let ?I = "\<lambda>i (s :: (u64 \<times> 'f productQuantizedPoint) list \<times> 'f list \<times> 'f list).
      length (fst s) = ?N \<and> length (fst (snd s)) = ?M * ?K * ?d
      \<and> length (snd (snd s)) = ?M * ?K * ?K
      \<and> (\<forall>m < i. \<forall>a < ?K. \<forall>b < ?K.
            snd (snd s) ! ((m * ?K + a) * ?K + b) = distFn pq (Centroids (?T m) ! a) (Centroids (?T m) ! b))
      \<and> (\<forall>j < ?N. fst (fst s ! j) = fst (?res ! j)
            \<and> Vector (snd (fst s ! j)) = Vector (snd (?res ! j))
            \<and> isDirty (snd (fst s ! j))
            \<and> length (CentroidIds (snd (fst s ! j))) = ?M
            \<and> (\<forall>m < i. CentroidIds (snd (fst s ! j)) ! m = Labels (?T m) ! j))"
  have loop: "\<exists>t. forLoop [0..<?M] (fitSubvector km pq ?vs)
                (?p0, replicate (?M * ?K * ?d) 0, replicate (?M * ?K * ?K) 0) = Inr t \<and> ?I ?M t"
  proof (rule forLoop_upt_rule [where I = ?I])
    show "?I 0 (?p0, replicate (?M * ?K * ?d) 0, replicate (?M * ?K * ?K) 0)"
      by (simp add: case_prod_beta)
  next
    fix i and s :: "(u64 \<times> 'f productQuantizedPoint) list \<times> 'f list \<times> 'f list"
    assume i: "i < ?M" and inv: "?I i s"
    obtain p f d where s: "s = (p, f, d)" by (cases s)
    from inv s have lp: "length p = ?N" and lf: "length f = ?M * ?K * ?d"
      and ld: "length d = ?M * ?K * ?K" by simp_all
    from inv s have dists: "\<And>m a b. m < i \<Longrightarrow> a < ?K \<Longrightarrow> b < ?K \<Longrightarrow>
            d ! ((m * ?K + a) * ?K + b) = distFn pq (Centroids (?T m) ! a) (Centroids (?T m) ! b)"
      by simp
    from inv s have pts: "\<And>j. j < ?N \<Longrightarrow> fst (p ! j) = fst (?res ! j)
            \<and> Vector (snd (p ! j)) = Vector (snd (?res ! j))
            \<and> isDirty (snd (p ! j))
            \<and> length (CentroidIds (snd (p ! j))) = ?M
            \<and> (\<forall>m < i. CentroidIds (snd (p ! j)) ! m = Labels (?T m) ! j)"
      by simp
    from trainerContractD [OF contract i] lp
    have cs: "?K \<le> length (Centroids (?T i))" and ls: "length p \<le> length (Labels (?T i))"
      by simp_all
    have ids: "\<forall>j < length p. length (CentroidIds (snd (p ! j))) = ?M" using pts lp by simp
    from fitSubvector_step [OF i cs ls ids lf ld] obtain p' f' d' where
      run: "fitSubvector km pq ?vs i (p, f, d) = Inr (p', f', d')"
      and lens: "length p' = length p" "length f' = length f" "length d' = length d"
      and p': "\<And>j. j < length p \<Longrightarrow>
                p' ! j = (fst (p ! j),
                          (snd (p ! j))\<lparr>CentroidIds :=
                             (CentroidIds (snd (p ! j)))[i := Labels (?T i) ! j]\<rparr>)"
      and new: "\<And>a b. a < ?K \<Longrightarrow> b < ?K \<Longrightarrow>
                d' ! ((i * ?K + a) * ?K + b) = distFn pq (Centroids (?T i) ! a) (Centroids (?T i) ! b)"
      and old: "\<And>n. n < length d \<Longrightarrow> n < (i * ?K) * ?K \<Longrightarrow> d' ! n = d ! n"
      by blast
    have D: "d' ! ((m * ?K + a) * ?K + b) = distFn pq (Centroids (?T m) ! a) (Centroids (?T m) ! b)"
      if m: "m < Suc i" and a: "a < ?K" and b: "b < ?K" for m a b
    proof (cases "m = i")
      case True
      then show ?thesis using new [OF a b] by simp
    next
      case False
      with m have mi: "m < i" by simp
      have r: "m * ?K + a < i * ?K" by (rule row_index_less [OF mi a])
      have below: "(m * ?K + a) * ?K + b < (i * ?K) * ?K" by (rule row_index_less [OF r b])
      have "i * ?K \<le> ?M * ?K" using i by (intro mult_le_mono1) simp
      then have "(i * ?K) * ?K \<le> ?M * ?K * ?K" by (rule mult_le_mono1)
      with below have "(m * ?K + a) * ?K + b < ?M * ?K * ?K" by (rule less_le_trans)
      then have "(m * ?K + a) * ?K + b < length d" unfolding ld .
      from old [OF this below] dists [OF mi a b] show ?thesis by simp
    qed
    have P: "fst (p' ! j) = fst (?res ! j)
            \<and> Vector (snd (p' ! j)) = Vector (snd (?res ! j))
            \<and> isDirty (snd (p' ! j))
            \<and> length (CentroidIds (snd (p' ! j))) = ?M
            \<and> (\<forall>m < Suc i. CentroidIds (snd (p' ! j)) ! m = Labels (?T m) ! j)"
      if j: "j < ?N" for j
    proof -
      have jp: "j < length p" using j lp by simp
      note e = p' [OF jp] and q = pts [OF j]
      have "CentroidIds (snd (p' ! j)) ! m = Labels (?T m) ! j" if "m < Suc i" for m
      proof (cases "m = i")
        case True
        then show ?thesis using e q i by simp
      next
        case False
        with that have "m < i" by simp
        with q have "CentroidIds (snd (p ! j)) ! m = Labels (?T m) ! j" by simp
        with False show ?thesis using e by simp
      qed
      then show ?thesis using e q by simp
    qed
    have "?I (Suc i) (p', f', d')"
      using lens lp lf ld D P by simp
    with run s show "\<exists>t'. fitSubvector km pq ?vs i s = Inr t' \<and> ?I (Suc i) t'" by blast
  qed
  then obtain t where t: "forLoop [0..<?M] (fitSubvector km pq ?vs)
                (?p0, replicate (?M * ?K * ?d) 0, replicate (?M * ?K * ?K) 0) = Inr t"
    and inv: "?I ?M t" by blast
  obtain p f d where tt: "t = (p, f, d)" by (cases t)
  let ?pq' = "pq\<lparr>items := (items pq)\<lparr>resident := p\<rparr>, flatCentroids := f, centroidDists := d\<rparr>"
  have gate: "\<not> Count (items pq) < TriggerThreshold (params pq)" using count by simp
  have ne: "\<not> length (flatCentroids pq) \<noteq> 0" using unfit by simp
  have fit: "pq_Fit km pq = Inr ?pq'"
    unfolding pq_Fit_def Let_def
    by (simp only: ne gate if_False t [unfolded allVectorsOf_def tt] sum.case prod.case)
  show ?thesis
    using fit inv tt by (simp add: centroidDistIdx_row)
qed

text \<open>
  Claim C5, as the code has it. When \<^verbatim>\<open>productQuantizer.Fit\<close> runs with a trainer that
  returns \<open>K\<close> centroids and a label per point, it returns \<^verbatim>\<open>nil\<close> and, for every subvector
  \<open>m\<close> and centroids \<open>a, b < K\<close>, \<open>centroid_dists[m, a, b]\<close> is the kernel's value on the
  trainer's centroids \<open>a\<close> and \<open>b\<close>. Hence it equals \<open>centroid_dists[m, b, a]\<close> for the
  Euclidean and the dot kernel, and it is non-negative with a zero diagonal for the
  Euclidean kernel (names euclidean and cosine). The arithmetic of \<open>'f\<close> is taken exact (an
  ordered ring).
\<close>

theorem centroidDists_of_kernel:
  fixes pq :: "'f::linordered_idom productQuantizer"
  assumes unfit: "flatCentroids pq = []"
    and count: "TriggerThreshold (params pq) \<le> Count (items pq)"
    and contract: "trainerContract km pq"
    and m: "m < NumSubVectors (params pq)"
    and a: "a < NumCentroids (params pq)" and b: "b < NumCentroids (params pq)"
  shows "\<exists>pq'. pq_Fit km pq = Inr pq'
          \<and> centroidDists pq' ! centroidDistIdx pq' m a b
              = distFn pq (Centroids (trainSubvector km pq (allVectorsOf pq) m) ! a)
                          (Centroids (trainSubvector km pq (allVectorsOf pq) m) ! b)
          \<and> (distFn pq = euclidean \<or> distFn pq = dot \<longrightarrow>
                centroidDists pq' ! centroidDistIdx pq' m a b
                  = centroidDists pq' ! centroidDistIdx pq' m b a)
          \<and> (distFn pq = euclidean \<longrightarrow>
                0 \<le> centroidDists pq' ! centroidDistIdx pq' m a b
                \<and> centroidDists pq' ! centroidDistIdx pq' m a a = 0)"
proof -
  let ?C = "Centroids (trainSubvector km pq (allVectorsOf pq) m)"
  from pq_Fit_runs [OF unfit count contract] obtain pq' where
    fit: "pq_Fit km pq = Inr pq'" and ps: "params pq' = params pq"
    and tab: "\<And>m a b. m < NumSubVectors (params pq) \<Longrightarrow> a < NumCentroids (params pq) \<Longrightarrow>
               b < NumCentroids (params pq) \<Longrightarrow>
                 centroidDists pq' ! centroidDistIdx pq m a b
                   = distFn pq (Centroids (trainSubvector km pq (allVectorsOf pq) m) ! a)
                               (Centroids (trainSubvector km pq (allVectorsOf pq) m) ! b)"
    by blast
  have idx: "centroidDistIdx pq' m x y = centroidDistIdx pq m x y" for x y
    by (simp add: centroidDistIdx_def ps)
  have ab: "centroidDists pq' ! centroidDistIdx pq' m a b = distFn pq (?C ! a) (?C ! b)"
    and ba: "centroidDists pq' ! centroidDistIdx pq' m b a = distFn pq (?C ! b) (?C ! a)"
    and aa: "centroidDists pq' ! centroidDistIdx pq' m a a = distFn pq (?C ! a) (?C ! a)"
    unfolding idx using tab m a b by simp_all
  have sym: "centroidDists pq' ! centroidDistIdx pq' m a b
               = centroidDists pq' ! centroidDistIdx pq' m b a"
    if "distFn pq = euclidean \<or> distFn pq = dot"
    using that ab ba euclidean_sym [of "?C ! a" "?C ! b"] dot_sym [of "?C ! a" "?C ! b"] by auto
  have pos: "0 \<le> centroidDists pq' ! centroidDistIdx pq' m a b
               \<and> centroidDists pq' ! centroidDistIdx pq' m a a = 0"
    if "distFn pq = euclidean"
    using that ab aa euclidean_nonneg [of "?C ! a" "?C ! b"] euclidean_self [of "?C ! a"] by simp
  from fit ab sym pos show ?thesis by blast
qed

theorem centroidDists_of_kernel_witness:
  "flatCentroids (pqOf ''euclidean'' euclidean 2 2 1 2 twoPoints [] []) = []
   \<and> trainerContract (KMeans_Fit realEnv) (pqOf ''euclidean'' euclidean 2 2 1 2 twoPoints [] [])
   \<and> (case pq_Fit (KMeans_Fit realEnv) (pqOf ''euclidean'' euclidean 2 2 1 2 twoPoints [] []) of
        Inl e \<Rightarrow> False
      | Inr pq' \<Rightarrow>
          centroidDists pq' = [0, 4, 4, 0, 0, 16, 16, 0]
          \<and> centroidDists pq' ! centroidDistIdx pq' 1 0 1 = centroidDists pq' ! centroidDistIdx pq' 1 1 0
          \<and> 0 \<le> centroidDists pq' ! centroidDistIdx pq' 1 0 1
          \<and> centroidDists pq' ! centroidDistIdx pq' 1 0 0 = 0)"
proof -
  let ?pq = "pqOf ''euclidean'' euclidean 2 2 1 2 twoPoints [] []"
  let ?km = "KMeans_Fit realEnv"
  have unfit: "flatCentroids ?pq = []" by (simp add: pqOf_def)
  have count: "TriggerThreshold (params ?pq) \<le> Count (items ?pq)"
    by (simp add: pqOf_def Count_def twoPoints_def)
  have contract: "trainerContract ?km ?pq" by code_simp
  have m: "1 < NumSubVectors (params ?pq)" and a: "0 < NumCentroids (params ?pq)"
    and b: "1 < NumCentroids (params ?pq)" by (simp_all add: pqOf_def)
  have e: "distFn ?pq = euclidean" by (simp add: pqOf_def)
  from centroidDists_of_kernel [OF unfit count contract m a b] e obtain pq' where
    fit: "pq_Fit ?km ?pq = Inr pq'"
    and sym: "centroidDists pq' ! centroidDistIdx pq' 1 0 1 = centroidDists pq' ! centroidDistIdx pq' 1 1 0"
    and pos: "0 \<le> centroidDists pq' ! centroidDistIdx pq' 1 0 1"
    and diag: "centroidDists pq' ! centroidDistIdx pq' 1 0 0 = 0"
    by blast
  have "map_sum id centroidDists (pq_Fit ?km ?pq) = Inr [0, 4, 4, 0, 0, 16, 16, 0]" by code_simp
  with fit have tab: "centroidDists pq' = [0, 4, 4, 0, 0, 16, 16, 0]" by simp
  have "(case pq_Fit ?km ?pq of
        Inl e \<Rightarrow> False
      | Inr pq' \<Rightarrow>
          centroidDists pq' = [0, 4, 4, 0, 0, 16, 16, 0]
          \<and> centroidDists pq' ! centroidDistIdx pq' 1 0 1 = centroidDists pq' ! centroidDistIdx pq' 1 1 0
          \<and> 0 \<le> centroidDists pq' ! centroidDistIdx pq' 1 0 1
          \<and> centroidDists pq' ! centroidDistIdx pq' 1 0 0 = 0)"
    unfolding fit sum.case using tab sym pos diag by (intro conjI)
  with unfit contract show ?thesis by (intro conjI)
qed

text \<open>
  Claim C5 as stated fails for a quantizer constructed with the name dot: the entries are
  dot products of centroids, which can be negative. With the two points \<open>[1]\<close> and \<open>[-1]\<close>,
  \<open>M = 1\<close>, \<open>K = 2\<close>, the trainer's centroids are the two points and the table is
  \<open>[1, -1, -1, 1]\<close>: \<open>centroid_dists[0, 0, 1] = -1\<close>. (Were the dot kernel the negated dot
  product, the diagonal would be \<open>-1\<close>.)
\<close>

theorem centroidDists_dot_negative_counterexample:
  "map_sum id centroidDists
     (pq_Fit (KMeans_Fit realEnv) (pqOf ''dot'' dot 1 2 1 2 oppositePoints [] []))
     = Inr [1, - 1, - 1, 1]
   \<and> centroidDistIdx (pqOf ''dot'' dot 1 2 1 2 oppositePoints [] []) 0 0 1 = 1
   \<and> [1, - 1, - 1, 1] ! 1 < (0 :: real)"
proof (intro conjI)
  show "map_sum id centroidDists
     (pq_Fit (KMeans_Fit realEnv) (pqOf ''dot'' dot 1 2 1 2 oppositePoints [] []))
     = Inr [1, - 1, - 1, 1]"
    by code_simp
  show "centroidDistIdx (pqOf ''dot'' dot 1 2 1 2 oppositePoints [] []) 0 0 1 = 1"
    by (simp add: centroidDistIdx_def pqOf_def)
  show "[1, - 1, - 1, 1] ! 1 < (0 :: real)" by simp
qed

end
